theory Spec2Isabelle
  imports Complex_Main "HOL-Library.Word"
begin

unbundle bit_operations_syntax

section \<open>Binary64 arithmetic\<close>

text \<open>
  The C type \<open>double\<close> is modelled by the real numbers it denotes, and every arithmetic
  operation rounds its exact result to the nearest number with a 53-bit significand, ties
  to even (IEEE 754 binary64, the default rounding mode). The exponent is not bounded:
  infinities, NaN and subnormal numbers are left out. All magnitudes that occur below lie
  between \<open>2 ^ - 60\<close> (the constant 0.005) and \<open>2 ^ 128\<close>, well inside the normal
  range of binary64.

  \<open>bit_length n\<close> is the number of binary digits of \<open>n\<close>; \<open>ilog2 x\<close> is the
  binary exponent of \<open>x > 0\<close>, that is \<open>\<lfloor>log\<^sub>2 x\<rfloor>\<close>; \<open>rne\<close> rounds to the
  nearest integer, ties to even; \<open>flp\<close> rounds a non-negative real and \<open>fl\<close> any real.
\<close>

fun bit_length :: "nat \<Rightarrow> nat" where
  "bit_length n = (if n = 0 then 0 else Suc (bit_length (n div 2)))"

declare bit_length.simps [simp del]

definition ilog2 :: "real \<Rightarrow> int" where
  "ilog2 x = (if 1 \<le> x then int (bit_length (nat \<lfloor>x\<rfloor>)) - 1
              else - int (bit_length (nat (\<lceil>1 / x\<rceil> - 1))))"

definition rne :: "real \<Rightarrow> int" where
  "rne x = (let f = \<lfloor>x\<rfloor>; d = x - of_int f in
            if d < 1 / 2 then f else if 1 / 2 < d then f + 1
            else if even f then f else f + 1)"

definition flp :: "real \<Rightarrow> real" where
  "flp x = (if x = 0 then 0
            else let e = ilog2 x - 52 in of_int (rne (x / 2 powi e)) * 2 powi e)"

definition fl :: "real \<Rightarrow> real" where
  "fl x = (if x < 0 then - flp (- x) else flp x)"


type_synonym double = real
type_synonym u32 = "32 word"
type_synonym u64 = "64 word"

definition d_add :: "double \<Rightarrow> double \<Rightarrow> double" where
  "d_add x y = fl (x + y)"

definition d_sub :: "double \<Rightarrow> double \<Rightarrow> double" where
  "d_sub x y = fl (x - y)"

definition d_mul :: "double \<Rightarrow> double \<Rightarrow> double" where
  "d_mul x y = fl (x * y)"

definition d_div :: "double \<Rightarrow> double \<Rightarrow> double" where
  "d_div x y = fl (x / y)"

text \<open>Conversion of an unsigned integer to \<open>double\<close> (exact below \<open>2 ^ 53\<close>).\<close>

definition double_of_u64 :: "u64 \<Rightarrow> double" where
  "double_of_u64 w = fl (real (unat w))"

definition double_of_u32 :: "u32 \<Rightarrow> double" where
  "double_of_u32 w = fl (real (unat w))"

section \<open>Errors\<close>

text \<open>
  \<open>Exit_failure\<close> is \<open>exit(EXIT_FAILURE)\<close>, \<open>Assert_failure\<close> a failed \<open>assert\<close>,
  \<open>Division_by_zero\<close> an integer division by zero, and \<open>Undefined_conversion\<close> the
  conversion of a \<open>double\<close> to \<open>uint64_t\<close> whose integral part does not fit, which C
  leaves undefined. \<open>Invalid_pointer\<close> stands for a \<open>peer\<close> index outside the array of
  siblings; the program's pointers never are.
\<close>

datatype err = Exit_failure | Assert_failure | Division_by_zero | Undefined_conversion
  | Invalid_pointer

text \<open>
  Storing a \<open>double\<close> in a \<open>uint64_t\<close> discards the fractional part (truncation
  towards zero).
\<close>

definition u64_of_double :: "double \<Rightarrow> err + u64" where
  "u64_of_double x = (if x \<le> - 1 \<or> 2 ^ 64 \<le> x then Inl Undefined_conversion
                      else Inr (word_of_nat (nat \<lfloor>x\<rfloor>)))"

section \<open>interface.h: units and components\<close>

datatype vendor = AMD | INTEL | NVIDIA | VENDOR_UNKNOWN

text \<open>
  \<open>struct Unit\<close>. The output stream \<open>energy_fd\<close> and the serial number are left out;
  \<open>id\<close> is named \<open>unit_id\<close>; \<open>peer\<close> is the index of the peer in the array of
  siblings instead of a pointer into it.
\<close>

record Unit_t =
  timestamp :: u64
  bus_id :: u64
  energy_resolution :: double
  energy_raw :: u64
  energy_acc :: u64
  energy_interval :: u64
  unit_id :: u32
  model :: u32
  busy_percent :: u32
  fixed_watts :: u32
  peer :: "nat option"

text \<open>A unit as \<open>memset(.., 0, ..)\<close> leaves it.\<close>

definition zero_unit :: Unit_t where
  "zero_unit = \<lparr>timestamp = 0, bus_id = 0, energy_resolution = 0, energy_raw = 0,
     energy_acc = 0, energy_interval = 0, unit_id = 0, model = 0, busy_percent = 0,
     fixed_watts = 0, peer = None\<rparr>"

record Component_t =
  siblings :: "Unit_t list"
  n_siblings :: u32

section \<open>common.h, cpu.c and dram.c\<close>

definition MSR_ENERGY_UNIT_MASK :: u64 where "MSR_ENERGY_UNIT_MASK = 0x1f"
definition MSR_AMD_POWER_UNIT :: u32 where "MSR_AMD_POWER_UNIT = 0xc0010299"
definition MSR_INTEL_POWER_UNIT :: u32 where "MSR_INTEL_POWER_UNIT = 0x606"
definition MSR_AMD_PACKAGE_ENERGY :: u32 where "MSR_AMD_PACKAGE_ENERGY = 0xc001029b"
definition MSR_INTEL_PACKAGE_ENERGY :: u32 where "MSR_INTEL_PACKAGE_ENERGY = 0x611"
definition MSR_INTEL_DRAM_PACKAGE_ENERGY :: u32 where "MSR_INTEL_DRAM_PACKAGE_ENERGY = 0x619"

text \<open>
  The model specific registers of the core of a package, as one call finds them: the content
  of each register, \<open>None\<close> where opening or reading \<open>/dev/cpu/N/msr\<close> fails.
\<close>

type_synonym msr_file = "u32 \<Rightarrow> u64 option"

definition read_msr :: "msr_file \<Rightarrow> u32 \<Rightarrow> err + u64" where
  "read_msr msr type = (case msr type of None \<Rightarrow> Inl Exit_failure | Some data \<Rightarrow> Inr data)"

text \<open>
  \<open>pow(0.5, (double)((msr_unit >> 8) & MSR_ENERGY_UNIT_MASK))\<close>: the exponent is an integer
  between 0 and 31, so the power is a binary64 number and \<open>pow\<close> returns it exactly.
\<close>

definition energy_unit_exponent :: "u64 \<Rightarrow> nat" where
  "energy_unit_exponent msr_unit = unat (drop_bit 8 msr_unit AND MSR_ENERGY_UNIT_MASK)"

definition decode_resolution :: "u64 \<Rightarrow> double" where
  "decode_resolution msr_unit = (1 / 2) ^ energy_unit_exponent msr_unit"

text \<open>
  \<open>_cpu_package_fetch_energy\<close>. The result carries, next to the unit, the list of the
  registers the call has read, in order.
\<close>

definition cpu_package_fetch_energy ::
  "msr_file \<Rightarrow> vendor \<Rightarrow> Unit_t \<Rightarrow> err + (Unit_t \<times> u32 list)" where
  "cpu_package_fetch_energy msr vendor package =
     (let energy_reg = (case vendor of INTEL \<Rightarrow> Some MSR_INTEL_PACKAGE_ENERGY
                         | AMD \<Rightarrow> Some MSR_AMD_PACKAGE_ENERGY | _ \<Rightarrow> None)
      in case energy_reg of None \<Rightarrow> Inl Exit_failure
      | Some reg \<Rightarrow>
        (case read_msr msr reg of Inl e \<Rightarrow> Inl e
         | Inr raw \<Rightarrow>
           let package = package\<lparr>energy_raw := raw\<rparr> in
           if 0 < energy_resolution package then Inr (package, [reg])
           else
             let unit_reg = (case vendor of INTEL \<Rightarrow> Some MSR_INTEL_POWER_UNIT
                              | AMD \<Rightarrow> Some MSR_AMD_POWER_UNIT | _ \<Rightarrow> None)
             in case unit_reg of None \<Rightarrow> Inr (package, [reg])
             | Some ureg \<Rightarrow>
               (case read_msr msr ureg of Inl e \<Rightarrow> Inl e
                | Inr msr_unit \<Rightarrow>
                  Inr (package\<lparr>energy_resolution := decode_resolution msr_unit\<rparr>,
                       [reg, ureg]))))"

text \<open>\<open>_dram_package_fetch_energy\<close>: only Intel has the DRAM energy register.\<close>

definition dram_package_fetch_energy ::
  "msr_file \<Rightarrow> vendor \<Rightarrow> Unit_t \<Rightarrow> err + (Unit_t \<times> u32 list)" where
  "dram_package_fetch_energy msr vendor package =
     (let energy_reg = (case vendor of INTEL \<Rightarrow> Some MSR_INTEL_DRAM_PACKAGE_ENERGY
                         | _ \<Rightarrow> None)
      in case energy_reg of None \<Rightarrow> Inl Exit_failure
      | Some reg \<Rightarrow>
        (case read_msr msr reg of Inl e \<Rightarrow> Inl e
         | Inr raw \<Rightarrow>
           let package = package\<lparr>energy_raw := raw\<rparr> in
           if 0 < energy_resolution package then Inr (package, [reg])
           else
             let unit_reg = (case vendor of INTEL \<Rightarrow> Some MSR_INTEL_POWER_UNIT
                              | AMD \<Rightarrow> Some MSR_AMD_POWER_UNIT | _ \<Rightarrow> None)
             in case unit_reg of None \<Rightarrow> Inr (package, [reg])
             | Some ureg \<Rightarrow>
               (case read_msr msr ureg of Inl e \<Rightarrow> Inl e
                | Inr msr_unit \<Rightarrow>
                  Inr (package\<lparr>energy_resolution := decode_resolution msr_unit\<rparr>,
                       [reg, ureg]))))"

text \<open>
  The interval energy and the accumulator of \<open>_cpu_package_update_files\<close> and
  \<open>_dram_package_update_files\<close>, after the fetch: \<open>1LU << 32\<close> is \<open>push_bit 32 1\<close>, the
  subtractions and the addition are those of \<open>uint64_t\<close>, the product is a \<open>double\<close>
  stored in the \<open>uint64_t\<close> field \<open>energy_interval\<close>.
\<close>

definition package_account :: "u64 \<Rightarrow> Unit_t \<Rightarrow> err + Unit_t" where
  "package_account last_energy_raw package =
     (let delta = (if last_energy_raw \<le> energy_raw package
                   then energy_raw package - last_energy_raw
                   else (push_bit 32 1 - last_energy_raw) + energy_raw package)
      in case u64_of_double (d_mul (energy_resolution package) (double_of_u64 delta)) of
           Inl e \<Rightarrow> Inl e
         | Inr joules \<Rightarrow>
             Inr (package\<lparr>energy_interval := joules,
                          energy_acc := energy_acc package + joules\<rparr>))"

definition cpu_package_update_files ::
  "msr_file \<Rightarrow> vendor \<Rightarrow> Unit_t \<Rightarrow> err + (Unit_t \<times> u32 list)" where
  "cpu_package_update_files msr vendor package =
     (let last_energy_raw = energy_raw package in
      case cpu_package_fetch_energy msr vendor package of Inl e \<Rightarrow> Inl e
      | Inr (package, reads) \<Rightarrow>
        (case package_account last_energy_raw package of Inl e \<Rightarrow> Inl e
         | Inr package \<Rightarrow> Inr (package, reads)))"

definition dram_package_update_files ::
  "msr_file \<Rightarrow> vendor \<Rightarrow> Unit_t \<Rightarrow> err + (Unit_t \<times> u32 list)" where
  "dram_package_update_files msr vendor package =
     (let last_energy_raw = energy_raw package in
      case dram_package_fetch_energy msr vendor package of Inl e \<Rightarrow> Inl e
      | Inr (package, reads) \<Rightarrow>
        (case package_account last_energy_raw package of Inl e \<Rightarrow> Inl e
         | Inr package \<Rightarrow> Inr (package, reads)))"

section \<open>amd\_gpu.c\<close>

definition MI250 :: u32 where "MI250 = 2828"

text \<open>
  What \<open>rsmi_dev_energy_count_get\<close> returns: \<open>None\<close> for a status other than success,
  else the counter, its resolution (a \<open>float\<close>, converted to \<open>double\<close> without loss) and
  the timestamp. \<open>rsmi_dev_busy_percent_get\<close> returns the utilization, or \<open>None\<close>.
\<close>

type_synonym rsmi_energy = "(u64 \<times> double \<times> u64) option"

definition amd_joules :: "double \<Rightarrow> u64 \<Rightarrow> err + u64" where
  "amd_joules resolution delta =
     u64_of_double (d_div (d_mul resolution (double_of_u64 delta)) (10 ^ 6))"

definition amd_device_fetch_energy :: "rsmi_energy \<Rightarrow> Unit_t \<Rightarrow> err + Unit_t" where
  "amd_device_fetch_energy rsmi dev =
     (let last_energy_raw = energy_raw dev in
      case rsmi of None \<Rightarrow> Inl Exit_failure
      | Some (counter, resolution, ts) \<Rightarrow>
        let dev = dev\<lparr>energy_raw := counter, timestamp := ts\<rparr> in
        if \<not> last_energy_raw \<le> energy_raw dev then Inl Assert_failure
        else
          let dev = dev\<lparr>energy_resolution := resolution\<rparr> in
          if last_energy_raw = 0 then Inr dev
          else
            (case amd_joules (energy_resolution dev) (energy_raw dev - last_energy_raw) of
               Inl e \<Rightarrow> Inl e
             | Inr joules \<Rightarrow>
                 Inr (dev\<lparr>energy_interval := joules,
                          energy_acc := energy_acc dev + joules\<rparr>)))"

definition amd_device_fetch_activity :: "u32 option \<Rightarrow> Unit_t \<Rightarrow> err + Unit_t" where
  "amd_device_fetch_activity rsmi dev =
     (case rsmi of None \<Rightarrow> Inl Exit_failure | Some busy \<Rightarrow> Inr (dev\<lparr>busy_percent := busy\<rparr>))"

text \<open>The local constants of \<open>_amd_device_fetch_energy_mi250\<close>.\<close>

definition gcd_idle_power :: u32 where "gcd_idle_power = 40"

definition elapsed_s :: "u64 \<Rightarrow> u64 \<Rightarrow> err + u64" where
  "elapsed_s ts last_timestamp = u64_of_double (d_div (double_of_u64 (ts - last_timestamp)) (10 ^ 9))"

definition energy_idle :: "u64 \<Rightarrow> u64" where
  "energy_idle elapsed = ucast gcd_idle_power * elapsed"

definition energy_min_idle :: "u64 \<Rightarrow> u64 \<Rightarrow> u64" where
  "energy_min_idle energy idle = (if 2 * idle < energy then energy - 2 * idle else 0)"

text \<open>The literal \<open>0.005\<close> is the binary64 number nearest to 5/1000.\<close>

definition energy_ratio :: "u32 \<Rightarrow> u32 \<Rightarrow> double" where
  "energy_ratio busy peer_busy =
     d_add (d_sub (d_mul (fl (5 / 1000)) (double_of_u32 busy))
                  (d_mul (fl (5 / 1000)) (double_of_u32 peer_busy)))
           (1 / 2)"

text \<open>The two shares, each a \<open>double\<close> stored in a \<open>uint64_t\<close> field.\<close>

definition gcd_share :: "u64 \<Rightarrow> double \<Rightarrow> u64 \<Rightarrow> err + u64" where
  "gcd_share idle ratio min_idle =
     u64_of_double (d_add (double_of_u64 idle) (d_mul ratio (double_of_u64 min_idle)))"

definition peer_share :: "u64 \<Rightarrow> double \<Rightarrow> u64 \<Rightarrow> err + u64" where
  "peer_share idle ratio min_idle =
     u64_of_double (d_add (double_of_u64 idle) (d_mul (d_sub 1 ratio) (double_of_u64 min_idle)))"

text \<open>
  \<open>_amd_device_fetch_energy_mi250\<close> on the device \<open>i\<close> of the array of siblings. The arguments
  are the results of the three calls into the library, in the order of the calls. Each
  write through \<open>dev\<close> or \<open>dev->peer\<close> is an update of the array, in the order of the source.
\<close>

definition amd_device_fetch_energy_mi250 ::
  "u32 option \<Rightarrow> u32 option \<Rightarrow> rsmi_energy \<Rightarrow> nat \<Rightarrow> Unit_t list \<Rightarrow> err + Unit_t list" where
  "amd_device_fetch_energy_mi250 busy_dev busy_peer rsmi i s =
     (if \<not> i < length s then Inl Invalid_pointer
      else case peer (s ! i) of None \<Rightarrow> Inr s
      | Some j \<Rightarrow>
        if \<not> j < length s then Inl Invalid_pointer
        else
          let last_energy_raw = energy_raw (s ! i);
              last_timestamp = timestamp (s ! i)
          in case amd_device_fetch_activity busy_dev (s ! i) of Inl e \<Rightarrow> Inl e
          | Inr d \<Rightarrow>
            let s = s[i := d] in
            case amd_device_fetch_activity busy_peer (s ! j) of Inl e \<Rightarrow> Inl e
            | Inr p \<Rightarrow>
              let s = s[j := p] in
              case rsmi of None \<Rightarrow> Inl Exit_failure
              | Some (counter, resolution, ts) \<Rightarrow>
                let s = s[i := (s ! i)\<lparr>energy_raw := counter, timestamp := ts,
                                        energy_resolution := resolution\<rparr>]
                in
                if \<not> last_energy_raw \<le> energy_raw (s ! i) then Inl Assert_failure
                else if last_energy_raw = 0 then Inr s
                else
                  case amd_joules (energy_resolution (s ! i))
                                  (energy_raw (s ! i) - last_energy_raw) of
                    Inl e \<Rightarrow> Inl e
                  | Inr energy \<Rightarrow>
                    case elapsed_s (timestamp (s ! i)) last_timestamp of Inl e \<Rightarrow> Inl e
                    | Inr elapsed \<Rightarrow>
                      let idle = energy_idle elapsed;
                          min_idle = energy_min_idle energy idle;
                          ratio = energy_ratio (busy_percent (s ! i)) (busy_percent (s ! j))
                      in case gcd_share idle ratio min_idle of Inl e \<Rightarrow> Inl e
                      | Inr share \<Rightarrow>
                        let s = s[i := (s ! i)\<lparr>energy_interval := share,
                                                energy_acc := energy_acc (s ! i) + share\<rparr>]
                        in case peer_share idle ratio min_idle of Inl e \<Rightarrow> Inl e
                        | Inr pshare \<Rightarrow>
                          Inr (s[j := (s ! j)\<lparr>energy_interval := pshare,
                                                energy_acc := energy_acc (s ! j) + pshare\<rparr>]))"

text \<open>
  \<open>_amd_device_update_files\<close>, without the write to the file. An \<open>amd_reading\<close> holds what
  the library returns for the device in one cycle: its utilization, the utilization of its
  peer and its energy counter.
\<close>

datatype amd_reading = Amd_reading (reading_busy: "u32 option") (reading_peer_busy: "u32 option")
  (reading_energy: rsmi_energy)


section \<open>nvidia\_gpu.c and intel\_gpu.c\<close>

text \<open>
  \<open>_nvidia_device_update_files\<close>; the argument is \<open>_dcgm_energy[dev->id]\<close>, in millijoules.
\<close>

definition nvidia_device_update_files :: "u64 \<Rightarrow> Unit_t \<Rightarrow> err + Unit_t" where
  "nvidia_device_update_files dcgm_energy dev =
     (let last_energy_raw = energy_raw dev;
          dev = dev\<lparr>energy_raw := dcgm_energy\<rparr>
      in if last_energy_raw = 0 then Inr dev
         else if \<not> last_energy_raw \<le> energy_raw dev then Inl Assert_failure
         else case u64_of_double (d_div (double_of_u64 (energy_raw dev - last_energy_raw)) (10 ^ 3)) of
                Inl e \<Rightarrow> Inl e
              | Inr joules \<Rightarrow>
                  Inr (dev\<lparr>energy_interval := joules, energy_acc := energy_acc dev + joules\<rparr>))"

definition MAX1550 :: u32 where "MAX1550 = 1550"

text \<open>
  \<open>_intel_device_update_files\<close>; the argument is \<open>energy_counter.energy\<close> after the call of
  \<open>zesPowerGetEnergyCounter\<close>, in microjoules (a failure of the call is only reported).
\<close>

definition intel_joules :: "u64 \<Rightarrow> err + u64" where
  "intel_joules delta = u64_of_double (d_div (double_of_u64 delta) (10 ^ 6))"

definition intel_device_update_files :: "u64 \<Rightarrow> Unit_t \<Rightarrow> err + Unit_t" where
  "intel_device_update_files energy dev =
     (let last_energy_raw = energy_raw dev;
          dev = dev\<lparr>energy_raw := energy\<rparr>
      in if last_energy_raw = 0 then Inr dev
         else if \<not> last_energy_raw \<le> energy_raw dev then Inl Assert_failure
         else case intel_joules (energy_raw dev - last_energy_raw) of
                Inl e \<Rightarrow> Inl e
              | Inr joules \<Rightarrow>
                  let dev = dev\<lparr>energy_interval := joules\<rparr>;
                      dev = (if model dev = MAX1550
                             then dev\<lparr>energy_interval := energy_interval dev div 2\<rparr> else dev)
                  in Inr (dev\<lparr>energy_acc := energy_acc dev + energy_interval dev\<rparr>))"

section \<open>mock.c\<close>

definition mock_update_files :: "Unit_t \<Rightarrow> Unit_t" where
  "mock_update_files mock = mock\<lparr>energy_acc := energy_acc mock + energy_interval mock\<rparr>"

text \<open>One unit of \<open>mock_init\<close>: the product is that of \<open>uint32_t\<close>.\<close>

definition mock_init_unit :: "u32 \<Rightarrow> u32 \<Rightarrow> u32 \<Rightarrow> Unit_t" where
  "mock_init_unit i watts interval =
     zero_unit\<lparr>unit_id := i, fixed_watts := watts, energy_interval := ucast (watts * interval)\<rparr>"

section \<open>ecounter.c: the overhead estimator\<close>

record Overhead_t =
  overhead_min :: u32
  overhead_max :: u32
  mov_average :: u32
  n_samples :: u32

text \<open>The fields of \<open>struct Ecounter\<close> that \<open>compute_overhead\<close> reads or writes.\<close>

record Ecounter_t =
  components :: "Component_t list"
  interval :: u32
  overhead :: Overhead_t

definition INT_MAX :: u32 where "INT_MAX = 0x7fffffff"

text \<open>
  The estimator as \<open>init\<close> leaves it: \<open>memset\<close> to zero, then
  \<open>ec->overhead.min = INT_MAX\<close>.
\<close>

definition init_overhead :: Overhead_t where
  "init_overhead = \<lparr>overhead_min = INT_MAX, overhead_max = 0, mov_average = 0, n_samples = 0\<rparr>"

text \<open>
  The outcome of the node power command: the pipe cannot be opened, the command prints
  nothing, or \<open>strtol\<close> returns a number. A number that is not positive ends the process;
  the cast to \<open>uint32_t\<close> keeps the low 32 bits.
\<close>

datatype power_cmd_result = Popen_failed | No_output | Parsed int

definition fetch_node_power :: "power_cmd_result \<Rightarrow> err + u32" where
  "fetch_node_power r =
     (case r of Popen_failed \<Rightarrow> Inl Exit_failure
      | No_output \<Rightarrow> Inl Exit_failure
      | Parsed watts \<Rightarrow> if watts \<le> 0 then Inl Exit_failure else Inr (word_of_int watts))"

text \<open>
  The two loops of \<open>compute_overhead\<close>: the local \<open>energy_interval\<close> is a \<open>uint32_t\<close>, so
  each addition of a \<open>uint64_t\<close> field keeps the low 32 bits of the sum.
\<close>

definition sum_siblings :: "Component_t \<Rightarrow> u32 \<Rightarrow> u32" where
  "sum_siblings component acc =
     fold (\<lambda>u a. a + ucast (energy_interval u))
          (take (unat (n_siblings component)) (siblings component)) acc"

definition sum_energy_interval :: "Ecounter_t \<Rightarrow> u32" where
  "sum_energy_interval ec = fold sum_siblings (components ec) 0"

definition overhead_interval :: "u32 \<Rightarrow> u32 \<Rightarrow> u32" where
  "overhead_interval power_interval node_power =
     (if power_interval < node_power then node_power - power_interval else 0)"

definition compute_overhead :: "power_cmd_result \<Rightarrow> Ecounter_t \<Rightarrow> err + Ecounter_t" where
  "compute_overhead cmd ec =
     (case fetch_node_power cmd of Inl e \<Rightarrow> Inl e
      | Inr node_power \<Rightarrow>
        if interval ec = 0 then Inl Division_by_zero
        else
          let power_interval = sum_energy_interval ec div interval ec;
              ov = overhead_interval power_interval node_power;
              st = overhead ec
          in if power_interval = 0 then Inr ec
             else if n_samples st + 1 = 0 then Inl Division_by_zero
             else Inr (ec\<lparr>overhead :=
                    \<lparr>overhead_min = min ov (overhead_min st),
                     overhead_max = max ov (overhead_max st),
                     mov_average = (mov_average st * n_samples st + ov) div (n_samples st + 1),
                     n_samples = n_samples st + 1\<rparr>\<rparr>))"

section \<open>The formulas of the specification\<close>

text \<open>
  The raw-count delta of the specification for a counter of 32 bits, on the integers: the
  difference when the counter has not wrapped, else the distance to \<open>2 ^ 32\<close> plus the
  new value.
\<close>

definition spec_delta :: "int \<Rightarrow> int \<Rightarrow> int" where
  "spec_delta last_raw raw = (if last_raw \<le> raw then raw - last_raw else (2 ^ 32 - last_raw) + raw)"

text \<open>
  The sum of the interval energies of every unit of every component, on the natural numbers:
  the numerator of the measured power of the specification.
\<close>

definition spec_energy_total :: "Ecounter_t \<Rightarrow> nat" where
  "spec_energy_total ec =
     (\<Sum>c \<leftarrow> components ec. \<Sum>u \<leftarrow> take (unat (n_siblings c)) (siblings c). unat (energy_interval u))"

text \<open>
  The measured power and the overhead of the specification: the whole Joules per second of
  the cycle, and \<open>max (P_node - P_measured) 0\<close>.
\<close>

definition spec_measured_power :: "Ecounter_t \<Rightarrow> nat" where
  "spec_measured_power ec = spec_energy_total ec div unat (interval ec)"

definition spec_overhead :: "int \<Rightarrow> nat \<Rightarrow> nat" where
  "spec_overhead node_power measured = nat (max (node_power - int measured) 0)"



text \<open>
  The idle floor of one die and the energy above idle of the specification, on the natural
  numbers: \<open>gcd_idle_power\<close> times the elapsed seconds, and
  \<open>max (combined - 2 * energy_idle) 0\<close>.
\<close>

definition spec_energy_idle :: "nat \<Rightarrow> nat" where
  "spec_energy_idle elapsed_seconds = 40 * elapsed_seconds"

definition spec_energy_above_idle :: "nat \<Rightarrow> nat \<Rightarrow> nat" where
  "spec_energy_above_idle combined idle = nat (max (int combined - 2 * int idle) 0)"
section \<open>The life of a unit\<close>

text \<open>
  \<open>main\<close> calls the update function of every component once per cycle, for ever. The
  following functions run finitely many cycles on one unit, each cycle with what the hardware
  returns in it; an error ends the run, as it ends the process.

  A CPU or DRAM package: \<open>package_cycles\<close> collects the registers read.
  \<open>cpu_package_lifetime\<close> starts as \<open>cpu_init\<close> does, with a fetch for the zeroed unit
  \<open>i\<close>.
\<close>

fun package_cycles ::
  "(msr_file \<Rightarrow> vendor \<Rightarrow> Unit_t \<Rightarrow> err + (Unit_t \<times> u32 list)) \<Rightarrow>
   msr_file list \<Rightarrow> vendor \<Rightarrow> Unit_t \<Rightarrow> err + (Unit_t \<times> u32 list)" where
  "package_cycles update [] vendor package = Inr (package, [])"
| "package_cycles update (msr # msrs) vendor package =
     (case update msr vendor package of Inl e \<Rightarrow> Inl e
      | Inr (package, reads) \<Rightarrow>
        (case package_cycles update msrs vendor package of Inl e \<Rightarrow> Inl e
         | Inr (package, reads') \<Rightarrow> Inr (package, reads @ reads')))"

definition cpu_package_lifetime ::
  "msr_file \<Rightarrow> msr_file list \<Rightarrow> vendor \<Rightarrow> u32 \<Rightarrow> err + (Unit_t \<times> u32 list)" where
  "cpu_package_lifetime msr msrs vendor i =
     (case cpu_package_fetch_energy msr vendor (zero_unit\<lparr>unit_id := i\<rparr>) of Inl e \<Rightarrow> Inl e
      | Inr (package, reads) \<Rightarrow>
        (case package_cycles cpu_package_update_files msrs vendor package of Inl e \<Rightarrow> Inl e
         | Inr (package, reads') \<Rightarrow> Inr (package, reads @ reads')))"

definition dram_package_lifetime ::
  "msr_file \<Rightarrow> msr_file list \<Rightarrow> vendor \<Rightarrow> u32 \<Rightarrow> err + (Unit_t \<times> u32 list)" where
  "dram_package_lifetime msr msrs vendor i =
     (case dram_package_fetch_energy msr vendor (zero_unit\<lparr>unit_id := i\<rparr>) of Inl e \<Rightarrow> Inl e
      | Inr (package, reads) \<Rightarrow>
        (case package_cycles dram_package_update_files msrs vendor package of Inl e \<Rightarrow> Inl e
         | Inr (package, reads') \<Rightarrow> Inr (package, reads @ reads')))"

text \<open>The registers that hold the energy unit.\<close>

definition unit_register_reads :: "u32 list \<Rightarrow> nat" where
  "unit_register_reads reads =
     length (filter (\<lambda>r. r = MSR_INTEL_POWER_UNIT \<or> r = MSR_AMD_POWER_UNIT) reads)"









text \<open>
  \<open>main\<close> calls \<open>compute_overhead\<close> once per cycle. \<open>compute_overhead_cycles n\<close> runs it
  in \<open>n\<close> cycles in which the node power command prints the same number and the units hold
  the same interval energies, as mock units do in every cycle.
\<close>

fun compute_overhead_cycles :: "nat \<Rightarrow> power_cmd_result \<Rightarrow> Ecounter_t \<Rightarrow> err + Ecounter_t" where
  "compute_overhead_cycles 0 cmd ec = Inr ec"
| "compute_overhead_cycles (Suc n) cmd ec =
     (case compute_overhead cmd ec of Inl e \<Rightarrow> Inl e
      | Inr ec' \<Rightarrow> compute_overhead_cycles n cmd ec')"
section \<open>Properties of the rounding\<close>

lemma bit_length_bounds:
  "0 < n \<Longrightarrow> 2 ^ (bit_length n - 1) \<le> n \<and> n < 2 ^ bit_length n"
proof (induction n rule: bit_length.induct)
  case (1 n)
  show ?case
  proof (cases "n div 2 = 0")
    case True
    with 1 have "n = 1" by presburger
    then show ?thesis by (simp add: bit_length.simps)
  next
    case False
    with 1 have ih: "2 ^ (bit_length (n div 2) - 1) \<le> n div 2" "n div 2 < 2 ^ bit_length (n div 2)"
      by auto
    have pos: "0 < bit_length (n div 2)" using False by (simp add: bit_length.simps)
    have eq: "bit_length n = Suc (bit_length (n div 2))" using 1(2) by (simp add: bit_length.simps)
    have "2 ^ (bit_length n - 1) = 2 * 2 ^ (bit_length (n div 2) - 1)"
      using pos eq by (cases "bit_length (n div 2)") auto
    also have "\<dots> \<le> 2 * (n div 2)" using ih(1) by simp
    also have "\<dots> \<le> n" by simp
    finally have a: "2 ^ (bit_length n - 1) \<le> n" .
    have "n < 2 * (n div 2) + 2" by presburger
    also have "\<dots> \<le> 2 * 2 ^ bit_length (n div 2)" using ih(2) by simp
    finally have b: "n < 2 ^ bit_length n" using eq by simp
    from a b show ?thesis by simp
  qed
qed

lemma bit_length_pos: "0 < n \<Longrightarrow> 0 < bit_length n"
  by (simp add: bit_length.simps)

lemma ilog2_ge1:
  assumes "1 \<le> x"
  shows "2 powi (ilog2 x) \<le> x" and "x < 2 powi (ilog2 x + 1)"
proof -
  define n where "n = nat \<lfloor>x\<rfloor>"
  have npos: "0 < n" using assms by (simp add: n_def)
  have nx: "real n \<le> x" using assms by (simp add: n_def)
  have xn: "x < real n + 1" using assms by (simp add: n_def; linarith)
  from bit_length_bounds[OF npos]
  have b: "2 ^ (bit_length n - 1) \<le> n" "n < 2 ^ bit_length n" by simp_all
  have il: "ilog2 x = int (bit_length n - 1)"
    using assms bit_length_pos[OF npos] by (simp add: ilog2_def n_def)
  have il1: "ilog2 x + 1 = int (bit_length n)"
    using il bit_length_pos[OF npos] by simp
  have r: "(2::real) ^ (bit_length n - 1) \<le> real n"
    using b(1) by (rule numeral_power_le_of_nat_cancel_iff[THEN iffD2])
  show "2 powi (ilog2 x) \<le> x" unfolding il power_int_of_nat using r nx by linarith
  have "n + 1 \<le> 2 ^ bit_length n" using b(2) by simp
  then have "real (n + 1) \<le> 2 ^ bit_length n"
    by (rule of_nat_le_numeral_power_cancel_iff[THEN iffD2])
  then have "real n + 1 \<le> 2 ^ bit_length n" by simp
  then show "x < 2 powi (ilog2 x + 1)" unfolding il1 power_int_of_nat using xn by linarith
qed

lemma ilog2_lt1:
  assumes "0 < x" "x < 1"
  shows "2 powi (ilog2 x) \<le> x" and "x < 2 powi (ilog2 x + 1)"
proof -
  define y where "y = 1 / x"
  define m where "m = nat (\<lceil>y\<rceil> - 1)"
  have y1: "1 < y" using assms by (simp add: y_def)
  have c2: "2 \<le> \<lceil>y\<rceil>" using y1 by linarith
  have mpos: "0 < m" using c2 by (simp add: m_def)
  have ym: "y \<le> real m + 1" using c2 by (simp add: m_def; linarith)
  have my: "real m < y" using c2 by (simp add: m_def; linarith)
  from bit_length_bounds[OF mpos]
  have b: "2 ^ (bit_length m - 1) \<le> m" "m < 2 ^ bit_length m" by simp_all
  have il: "ilog2 x = - int (bit_length m)"
    using assms by (simp add: ilog2_def m_def y_def)
  have "m + 1 \<le> 2 ^ bit_length m" using b(2) by simp
  then have "real (m + 1) \<le> 2 ^ bit_length m"
    by (rule of_nat_le_numeral_power_cancel_iff[THEN iffD2])
  then have "real m + 1 \<le> 2 ^ bit_length m" by simp
  then have "y \<le> 2 ^ bit_length m" using ym by linarith
  then have "1 / 2 ^ bit_length m \<le> x"
    using assms by (simp add: y_def field_simps)
  then show "2 powi (ilog2 x) \<le> x"
    by (simp add: il power_int_minus field_simps)
  have "(2::real) ^ (bit_length m - 1) \<le> real m"
    using b(1) by (rule numeral_power_le_of_nat_cancel_iff[THEN iffD2])
  then have "2 ^ (bit_length m - 1) < y" using my by linarith
  then have xl: "x < 1 / 2 ^ (bit_length m - 1)"
    using assms by (simp add: y_def field_simps)
  have "ilog2 x + 1 = - int (bit_length m - 1)"
    using il bit_length_pos[OF mpos] by simp
  then show "x < 2 powi (ilog2 x + 1)"
    using xl by (simp add: power_int_minus field_simps)
qed

lemma ilog2_bounds:
  assumes "0 < x"
  shows "2 powi (ilog2 x) \<le> x" and "x < 2 powi (ilog2 x + 1)"
  using ilog2_ge1[of x] ilog2_lt1[of x] assms by (cases "1 \<le> x"; simp)+

lemma ilog2_unique:
  assumes "2 powi e \<le> x" "x < 2 powi (e + 1)"
  shows "ilog2 x = e"
proof -
  have "(0::real) < 2 powi e" by simp
  then have xpos: "0 < x" using assms(1) by linarith
  note b = ilog2_bounds[OF xpos]
  have 1: "e < ilog2 x + 1"
  proof (rule ccontr)
    assume "\<not> e < ilog2 x + 1"
    then have "(2::real) powi (ilog2 x + 1) \<le> 2 powi e"
      by (intro power_int_increasing) auto
    with assms(1) b(2) show False by linarith
  qed
  have 2: "ilog2 x < e + 1"
  proof (rule ccontr)
    assume "\<not> ilog2 x < e + 1"
    then have "(2::real) powi (e + 1) \<le> 2 powi (ilog2 x)"
      by (intro power_int_increasing) auto
    with assms(2) b(1) show False by linarith
  qed
  from 1 2 show ?thesis by simp
qed

lemma ilog2_mono:
  assumes "0 < x" "x \<le> y"
  shows "ilog2 x \<le> ilog2 y"
proof (rule ccontr)
  assume "\<not> ilog2 x \<le> ilog2 y"
  then have "(2::real) powi (ilog2 y + 1) \<le> 2 powi (ilog2 x)"
    by (intro power_int_increasing) auto
  moreover have "0 < y" using assms by linarith
  ultimately show False
    using ilog2_bounds(1)[OF assms(1)] ilog2_bounds(2)[of y] assms(2) by linarith
qed

lemma rne_err: "\<bar>of_int (rne x) - x\<bar> \<le> 1 / 2"
  unfolding rne_def Let_def by (auto; linarith)

lemma rne_of_int [simp]: "rne (of_int n) = n"
  by (simp add: rne_def)

lemma rne_mono: "x \<le> y \<Longrightarrow> rne x \<le> rne y"
proof (rule ccontr)
  assume xy: "x \<le> y" and n: "\<not> rne x \<le> rne y"
  then have "rne y + 1 \<le> rne x" by simp
  then have r: "real_of_int (rne y) + 1 \<le> of_int (rne x)" by linarith
  have "x = y" using rne_err[of x] rne_err[of y] r xy by linarith
  with n show False by simp
qed

lemma rne_nonneg: "0 \<le> x \<Longrightarrow> 0 \<le> rne x"
  using rne_mono[of 0 x] rne_of_int[of 0] by simp

text \<open>Scaling facts used for every positive argument of flp.\<close>

lemma flp_pos_eq:
  "0 < x \<Longrightarrow> flp x = of_int (rne (x / 2 powi (ilog2 x - 52))) * 2 powi (ilog2 x - 52)"
  by (simp add: flp_def Let_def)

lemma scaled_bounds:
  assumes "0 < x"
  shows "2 ^ 52 \<le> x / 2 powi (ilog2 x - 52)" and "x / 2 powi (ilog2 x - 52) < 2 ^ 53"
proof -
  define s :: real where "s = 2 powi (ilog2 x - 52)"
  have spos: "0 < s" by (simp add: s_def)
  have e1: "(2::real) powi (ilog2 x) = 2 ^ 52 * s" by (simp add: s_def power_int_diff)
  have e2: "(2::real) powi (ilog2 x + 1) = 2 ^ 53 * s"
    by (simp add: s_def power_int_diff power_int_add)
  have "2 ^ 52 * s \<le> x" using ilog2_bounds(1)[OF assms] e1 by simp
  then show "2 ^ 52 \<le> x / 2 powi (ilog2 x - 52)"
    unfolding s_def[symmetric] using spos by (simp add: le_divide_eq)
  have "x < 2 ^ 53 * s" using ilog2_bounds(2)[OF assms] e2 by simp
  then show "x / 2 powi (ilog2 x - 52) < 2 ^ 53"
    unfolding s_def[symmetric] using spos by (simp add: divide_less_eq)
qed

lemma flp_err:
  assumes "0 < x"
  shows "\<bar>flp x - x\<bar> \<le> 2 powi (ilog2 x - 53)"
proof -
  define s :: real where "s = 2 powi (ilog2 x - 52)"
  have spos: "0 < s" by (simp add: s_def)
  have "flp x - x = (of_int (rne (x / s)) - x / s) * s"
    using spos by (simp add: flp_pos_eq[OF assms] s_def field_simps)
  then have "\<bar>flp x - x\<bar> = \<bar>of_int (rne (x / s)) - x / s\<bar> * s"
    using spos by (simp add: abs_mult)
  also have "\<dots> \<le> (1 / 2) * s"
    using rne_err[of "x / s"] spos by (intro mult_right_mono) auto
  also have "\<dots> = 2 powi (ilog2 x - 53)"
    by (simp add: s_def power_int_diff)
  finally show ?thesis .
qed

lemma flp_rel_err:
  assumes "0 < x"
  shows "\<bar>flp x - x\<bar> \<le> x / 2 ^ 53"
proof -
  have "(2::real) powi (ilog2 x - 53) = 2 powi (ilog2 x) / 2 ^ 53"
    by (simp add: power_int_diff)
  also have "\<dots> \<le> x / 2 ^ 53"
    using ilog2_bounds(1)[OF assms] by (simp add: divide_right_mono)
  finally show ?thesis using flp_err[OF assms] by linarith
qed

lemma flp_range:
  assumes "0 < x"
  shows "2 powi (ilog2 x) \<le> flp x" and "flp x \<le> 2 powi (ilog2 x + 1)"
proof -
  define s :: real where "s = 2 powi (ilog2 x - 52)"
  have spos: "0 < s" by (simp add: s_def)
  have lo: "2 ^ 52 \<le> x / s" and hi: "x / s \<le> 2 ^ 53"
    using scaled_bounds[OF assms] by (simp_all add: s_def)
  have "rne (of_int (2 ^ 52)) \<le> rne (x / s)" using lo by (intro rne_mono) simp
  then have "(2::int) ^ 52 \<le> rne (x / s)" unfolding rne_of_int .
  then have a: "(2::real) ^ 52 \<le> of_int (rne (x / s))"
    by (rule numeral_power_le_of_int_cancel_iff[THEN iffD2])
  have "rne (x / s) \<le> rne (of_int (2 ^ 53))" using hi by (intro rne_mono) simp
  then have "rne (x / s) \<le> (2::int) ^ 53" unfolding rne_of_int .
  then have b: "of_int (rne (x / s)) \<le> (2::real) ^ 53"
    by (rule of_int_le_numeral_power_cancel_iff[THEN iffD2])
  have e1: "(2::real) powi (ilog2 x) = 2 ^ 52 * s" by (simp add: s_def power_int_diff)
  have e2: "(2::real) powi (ilog2 x + 1) = 2 ^ 53 * s"
    by (simp add: s_def power_int_diff power_int_add)
  show "2 powi (ilog2 x) \<le> flp x"
    unfolding e1 flp_pos_eq[OF assms] s_def[symmetric] using a spos by (intro mult_right_mono) auto
  show "flp x \<le> 2 powi (ilog2 x + 1)"
    unfolding e2 flp_pos_eq[OF assms] s_def[symmetric] using b spos by (intro mult_right_mono) auto
qed

lemma flp_0 [simp]: "flp 0 = 0"
  by (simp add: flp_def)

lemma flp_nonneg: "0 \<le> x \<Longrightarrow> 0 \<le> flp x"
proof (cases "x = 0")
  case False
  assume "0 \<le> x"
  with False have "0 < x" by simp
  from flp_range(1)[OF this] have "(2::real) powi (ilog2 x) \<le> flp x" .
  moreover have "(0::real) < 2 powi (ilog2 x)" by simp
  ultimately show ?thesis by linarith
qed simp

lemma flp_mono:
  assumes "0 \<le> x" "x \<le> y"
  shows "flp x \<le> flp y"
proof (cases "x = 0")
  case True
  then show ?thesis using flp_nonneg[of y] assms by simp
next
  case False
  then have xpos: "0 < x" and ypos: "0 < y" using assms by linarith+
  show ?thesis
  proof (cases "ilog2 x = ilog2 y")
    case True
    define s :: real where "s = 2 powi (ilog2 x - 52)"
    have spos: "0 < s" by (simp add: s_def)
    have "x / s \<le> y / s" using assms spos by (simp add: divide_right_mono)
    then have "rne (x / s) \<le> rne (y / s)" by (rule rne_mono)
    then have "real_of_int (rne (x / s)) * s \<le> of_int (rne (y / s)) * s"
      using spos by (intro mult_right_mono) auto
    then show ?thesis
      using True by (simp add: flp_pos_eq[OF xpos] flp_pos_eq[OF ypos] s_def)
  next
    case False
    with ilog2_mono[OF xpos assms(2)] have "ilog2 x + 1 \<le> ilog2 y" by simp
    then have "(2::real) powi (ilog2 x + 1) \<le> 2 powi (ilog2 y)"
      by (intro power_int_increasing) auto
    with flp_range(2)[OF xpos] flp_range(1)[OF ypos] show ?thesis by linarith
  qed
qed

lemma flp_exact:
  assumes "0 \<le> m" "m \<le> 2 ^ 53"
  shows "flp (of_int m * 2 powi k) = of_int m * 2 powi k"
proof (cases "m = 0")
  case False
  define x :: real where "x = of_int m * 2 powi k"
  have mpos: "0 < m" using assms False by simp
  have xpos: "0 < x" using mpos by (simp add: x_def)
  have m53: "real_of_int m \<le> 2 ^ 53"
    using assms(2) by (rule of_int_le_numeral_power_cancel_iff[THEN iffD2])
  have "(2::real) powi (ilog2 x) \<le> x" by (rule ilog2_bounds(1)[OF xpos])
  also have "\<dots> \<le> 2 ^ 53 * 2 powi k" unfolding x_def using m53 by (intro mult_right_mono) auto
  also have "\<dots> = 2 powi (k + 53)" by (simp add: power_int_add)
  finally have pk: "(2::real) powi (ilog2 x) \<le> 2 powi (k + 53)" .
  have "ilog2 x \<le> k + 53"
  proof (rule ccontr)
    assume "\<not> ilog2 x \<le> k + 53"
    then have "(2::real) powi (k + 53) < 2 powi (ilog2 x)"
      by (intro power_int_strict_increasing) auto
    with pk show False by linarith
  qed
  show ?thesis
  proof (cases "ilog2 x = k + 53")
    case True
    have "2 powi (k + 53) \<le> x" using ilog2_bounds(1)[OF xpos] True by simp
    then have "2 ^ 53 * 2 powi k \<le> of_int m * (2::real) powi k" by (simp add: power_int_add x_def)
    then have "2 ^ 53 \<le> real_of_int m" by simp
    with m53 have m: "real_of_int m = 2 ^ 53" by linarith
    have sk: "(2::real) powi (ilog2 x - 52) = 2 * 2 powi k"
      unfolding True by (simp add: power_int_add)
    have xk: "x = 2 ^ 53 * 2 powi k" by (simp add: x_def m)
    have "x / 2 powi (ilog2 x - 52) = of_int (2 ^ 52)"
      unfolding sk by (simp add: xk)
    then have "rne (x / 2 powi (ilog2 x - 52)) = 2 ^ 52"
      by (simp only: rne_of_int)
    then show ?thesis
      unfolding x_def[symmetric] flp_pos_eq[OF xpos] sk by (simp add: xk)
  next
    case False
    with \<open>ilog2 x \<le> k + 53\<close> have le: "0 \<le> k - (ilog2 x - 52)" by simp
    define j where "j = nat (k - (ilog2 x - 52))"
    define s :: real where "s = 2 powi (ilog2 x - 52)"
    have spos: "0 < s" by (simp add: s_def)
    have ks: "(2::real) powi k = s * 2 ^ j"
      using le by (simp add: s_def j_def power_int_add[symmetric] flip: power_int_of_nat)
    have xs: "x = (of_int m * 2 ^ j) * s" by (simp add: x_def ks)
    have "x / s = of_int (m * 2 ^ j)" using spos by (simp add: xs)
    then have "rne (x / s) = m * 2 ^ j"
      by (simp only: rne_of_int)
    then show ?thesis
      unfolding x_def[symmetric] flp_pos_eq[OF xpos] s_def[symmetric] by (simp add: xs)
  qed
qed simp

lemma fl_0 [simp]: "fl 0 = 0"
  by (simp add: fl_def)

lemma fl_nonneg: "0 \<le> x \<Longrightarrow> 0 \<le> fl x"
  by (simp add: fl_def flp_nonneg)

lemma fl_mono: "x \<le> y \<Longrightarrow> fl x \<le> fl y"
  using flp_mono[of x y] flp_mono[of "- y" "- x"] flp_nonneg[of y] flp_nonneg[of "- x"]
  by (auto simp: fl_def)

lemma fl_exact:
  assumes "\<bar>m\<bar> \<le> 2 ^ 53"
  shows "fl (of_int m * 2 powi k) = of_int m * 2 powi k"
proof (cases "m < 0")
  case True
  then have "of_int m * (2::real) powi k < 0" by (simp add: mult_neg_pos)
  moreover have "flp (of_int (- m) * 2 powi k) = of_int (- m) * 2 powi k"
    using True assms by (intro flp_exact) auto
  ultimately show ?thesis by (simp add: fl_def)
next
  case False
  then have "\<not> of_int m * (2::real) powi k < 0" by (simp add: not_less)
  moreover have "flp (of_int m * 2 powi k) = of_int m * 2 powi k"
    using False assms by (intro flp_exact) auto
  ultimately show ?thesis by (simp add: fl_def)
qed

lemma fl_rel_err: "\<bar>fl x - x\<bar> \<le> \<bar>x\<bar> / 2 ^ 53"
proof (cases "x < 0")
  case True
  then have "\<bar>flp (- x) - (- x)\<bar> \<le> (- x) / 2 ^ 53" by (intro flp_rel_err) simp
  moreover have "\<bar>fl x - x\<bar> = \<bar>flp (- x) - (- x)\<bar>" using True by (simp add: fl_def)
  ultimately show ?thesis using True by simp
next
  case False
  then show ?thesis using flp_rel_err[of x] by (cases "x = 0") (auto simp: fl_def)
qed

section \<open>Conversions between integers and binary64\<close>

lemma fl_of_nat_exact: "n \<le> 2 ^ 53 \<Longrightarrow> fl (real n) = real n"
proof -
  assume a: "n \<le> 2 ^ 53"
  have i: "int n \<le> 2 ^ 53" by (rule of_nat_le_numeral_power_cancel_iff[THEN iffD2, OF a])
  have "fl (of_int (int n) * 2 powi 0) = of_int (int n) * 2 powi 0"
    by (rule fl_exact) (use i in simp)
  then show ?thesis by simp
qed

lemma double_of_u64_exact: "unat w \<le> 2 ^ 53 \<Longrightarrow> double_of_u64 w = real (unat w)"
  unfolding double_of_u64_def by (rule fl_of_nat_exact)

lemma double_of_u32_exact: "double_of_u32 w = real (unat w)"
proof -
  have "unat w < 2 ^ 32" using unsigned_less[of w, where 'a = nat] by simp
  then have a: "unat w \<le> 2 ^ 53" by simp
  then show ?thesis unfolding double_of_u32_def by (rule fl_of_nat_exact)
qed

lemma d_mul_half_power: "n \<le> 2 ^ 53 \<Longrightarrow> d_mul ((1 / 2) ^ k) (real n) = real n / 2 ^ k"
proof -
  assume a: "n \<le> 2 ^ 53"
  have i: "int n \<le> 2 ^ 53" by (rule of_nat_le_numeral_power_cancel_iff[THEN iffD2, OF a])
  have "fl (of_int (int n) * 2 powi (- int k)) = of_int (int n) * 2 powi (- int k)"
    by (rule fl_exact) (use i in simp)
  then show ?thesis by (simp add: d_mul_def power_int_minus field_simps)
qed

lemma u64_of_double_floor:
  "0 \<le> x \<Longrightarrow> x < 2 ^ 64 \<Longrightarrow> u64_of_double x = Inr (word_of_nat (nat \<lfloor>x\<rfloor>))"
  by (simp add: u64_of_double_def)

lemma floor_real_div_nat: "\<lfloor>real n / 2 ^ k\<rfloor> = int (n div 2 ^ k)"
  using floor_divide_of_nat_eq[of n "2 ^ k", where 'a = real] by simp


section \<open>CPU and DRAM packages: the interval energy\<close>

lemma spec_delta_nonneg:
  "0 \<le> last_raw \<Longrightarrow> last_raw < 2 ^ 32 \<Longrightarrow> 0 \<le> raw \<Longrightarrow> 0 \<le> spec_delta last_raw raw"
  by (simp add: spec_delta_def)

lemma mod_2_64_small:
  fixes a :: int
  shows "0 \<le> a \<Longrightarrow> a < 2 ^ 34 \<Longrightarrow> a mod 2 ^ 64 = a"
  by (rule mod_pos_pos_trivial) simp_all

text \<open>The delta of the code, a \<open>uint64_t\<close>, is the delta of the specification.\<close>

lemma code_delta_eq_spec:
  fixes last raw :: u64
  assumes "unat last < 2 ^ 32" "unat raw < 2 ^ 32"
  shows "uint (if last \<le> raw then raw - last else (push_bit 32 1 - last) + raw)
         = spec_delta (uint last) (uint raw)"
proof (cases "last \<le> raw")
  case True
  then have "uint (raw - last) = uint raw - uint last"
    by (simp add: uint_minus_simple_alt)
  with True show ?thesis by (simp add: spec_delta_def word_le_def)
next
  case False
  define a b where "a = uint last" and "b = uint raw"
  have l: "a < 2 ^ 32"
    unfolding a_def uint_nat
    by (rule of_nat_less_numeral_power_cancel_iff[THEN iffD2, OF assms(1)])
  have r: "b < 2 ^ 32"
    unfolding b_def uint_nat
    by (rule of_nat_less_numeral_power_cancel_iff[THEN iffD2, OF assms(2)])
  have l0: "0 \<le> a" and r0: "0 \<le> b" by (simp_all add: a_def b_def)
  have lt: "b < a" using False by (simp add: word_le_def a_def b_def)
  have p: "uint (push_bit 32 1 :: u64) = 2 ^ 32" by simp
  have "uint (push_bit 32 1 - last) = (2 ^ 32 - a) mod 2 ^ 64"
    unfolding uint_word_ariths p a_def by simp
  also have "\<dots> = 2 ^ 32 - a" using l l0 by (intro mod_2_64_small) simp_all
  finally have a: "uint (push_bit 32 1 - last) = 2 ^ 32 - a" .
  have "uint ((push_bit 32 1 - last) + raw) = (2 ^ 32 - a + b) mod 2 ^ 64"
    unfolding uint_word_ariths(1) a b_def by simp
  also have "\<dots> = 2 ^ 32 - a + b"
    using l l0 r r0 by (intro mod_2_64_small) simp_all
  finally show ?thesis using False lt by (simp add: spec_delta_def a_def b_def)
qed

lemma spec_delta_bound:
  "0 \<le> last_raw \<Longrightarrow> last_raw < 2 ^ 32 \<Longrightarrow> 0 \<le> raw \<Longrightarrow> raw < 2 ^ 32
   \<Longrightarrow> spec_delta last_raw raw < 2 ^ 33"
  by (simp add: spec_delta_def)

lemma package_account_known:
  fixes package :: Unit_t and last :: u64
  assumes k: "energy_resolution package = (1 / 2) ^ k"
    and l: "unat last < 2 ^ 32" and r: "unat (energy_raw package) < 2 ^ 32"
  defines "q \<equiv> \<lfloor>energy_resolution package * of_int (spec_delta (uint last) (uint (energy_raw package)))\<rfloor>"
  shows "package_account last package =
           Inr (package\<lparr>energy_interval := word_of_int q,
                         energy_acc := energy_acc package + word_of_int q\<rparr>)"
    and "0 \<le> q" and "q < 2 ^ 33"
proof -
  define d :: u64 where "d = (if last \<le> energy_raw package then energy_raw package - last
                              else (push_bit 32 1 - last) + energy_raw package)"
  define n where "n = unat d"
  have ud: "uint d = spec_delta (uint last) (uint (energy_raw package))"
    unfolding d_def by (rule code_delta_eq_spec[OF l r])
  have l': "uint last < 2 ^ 32"
    unfolding uint_nat by (rule of_nat_less_numeral_power_cancel_iff[THEN iffD2, OF l])
  have r': "uint (energy_raw package) < 2 ^ 32"
    unfolding uint_nat by (rule of_nat_less_numeral_power_cancel_iff[THEN iffD2, OF r])
  have "uint d < 2 ^ 33" unfolding ud by (rule spec_delta_bound) (use l' r' in simp_all)
  then have "int n < 2 ^ 33" unfolding n_def uint_nat .
  then have n33: "n < 2 ^ 33" by (rule of_nat_less_numeral_power_cancel_iff[THEN iffD1])
  then have n53: "n \<le> 2 ^ 53" by simp
  have dd: "double_of_u64 d = real n" unfolding n_def by (rule double_of_u64_exact) (use n53 in \<open>simp add: n_def\<close>)
  have m: "d_mul (energy_resolution package) (double_of_u64 d) = real n / 2 ^ k"
    unfolding k dd by (rule d_mul_half_power[OF n53])
  have "real_of_int (uint d) = real n" unfolding n_def by simp
  then have sd: "real_of_int (spec_delta (uint last) (uint (energy_raw package))) = real n"
    unfolding ud .
  have qn: "q = int (n div 2 ^ k)"
    unfolding q_def sd k using floor_real_div_nat[of n k] by (simp add: field_simps)
  have x0: "0 \<le> real n / 2 ^ k" by simp
  have "n div 2 ^ k \<le> n" by (rule div_le_dividend)
  then have nk: "n div 2 ^ k < 2 ^ 33" using n33 by linarith
  have "real n / 2 ^ k \<le> real n" by (simp add: field_simps mult_le_cancel_left1)
  also have "\<dots> < 2 ^ 64" using n33 by simp
  finally have x1: "real n / 2 ^ k < 2 ^ 64" .
  have conv: "u64_of_double (real n / 2 ^ k) = Inr (word_of_int q)"
    unfolding u64_of_double_floor[OF x0 x1] qn floor_real_div_nat by simp
  show "package_account last package =
           Inr (package\<lparr>energy_interval := word_of_int q,
                         energy_acc := energy_acc package + word_of_int q\<rparr>)"
    unfolding package_account_def Let_def d_def[symmetric] m conv by simp
  show "0 \<le> q" unfolding qn by simp
  show "q < 2 ^ 33" unfolding qn using nk by (simp add: of_nat_less_numeral_power_cancel_iff)
qed


lemma cpu_fetch_known:
  assumes "0 < energy_resolution package"
  shows "msr MSR_INTEL_PACKAGE_ENERGY = Some raw \<Longrightarrow>
           cpu_package_fetch_energy msr INTEL package
             = Inr (package\<lparr>energy_raw := raw\<rparr>, [MSR_INTEL_PACKAGE_ENERGY])"
    and "msr MSR_AMD_PACKAGE_ENERGY = Some raw \<Longrightarrow>
           cpu_package_fetch_energy msr AMD package
             = Inr (package\<lparr>energy_raw := raw\<rparr>, [MSR_AMD_PACKAGE_ENERGY])"
  using assms by (simp_all add: cpu_package_fetch_energy_def read_msr_def)

lemma dram_fetch_known:
  assumes "0 < energy_resolution package"
  shows "msr MSR_INTEL_DRAM_PACKAGE_ENERGY = Some raw \<Longrightarrow>
           dram_package_fetch_energy msr INTEL package
             = Inr (package\<lparr>energy_raw := raw\<rparr>, [MSR_INTEL_DRAM_PACKAGE_ENERGY])"
  using assms by (simp_all add: dram_package_fetch_energy_def read_msr_def)

text \<open>
  Claim C1, as the code has it. For a CPU or DRAM package whose resolution is known, a power
  \<open>(1/2) ^ k\<close> as \<open>decode_resolution\<close> yields, and for a previous and a new raw value
  below \<open>2 ^ 32\<close>, one update computes the delta of the specification: \<open>raw - last_raw\<close>
  when \<open>raw \<ge> last_raw\<close>, else \<open>(2 ^ 32 - last_raw) + raw\<close>; the delta is not negative.
  The field \<open>energy_interval\<close> is an unsigned integer: it receives the integral part of
  \<open>resolution * delta\<close>, and \<open>energy_acc\<close> grows by the same amount.
\<close>

theorem package_update_interval_energy:
  fixes package :: Unit_t and raw :: u64
  assumes res: "energy_resolution package = (1 / 2) ^ k"
    and last: "unat (energy_raw package) < 2 ^ 32" and raw: "unat raw < 2 ^ 32"
    and msr: "msr MSR_INTEL_PACKAGE_ENERGY = Some raw" "msr MSR_AMD_PACKAGE_ENERGY = Some raw"
      "msr MSR_INTEL_DRAM_PACKAGE_ENERGY = Some raw"
  shows "let delta = spec_delta (uint (energy_raw package)) (uint raw);
             joules = \<lfloor>energy_resolution package * of_int delta\<rfloor>;
             package' = package\<lparr>energy_raw := raw, energy_interval := word_of_int joules,
                                 energy_acc := energy_acc package + word_of_int joules\<rparr>
         in 0 \<le> delta \<and> uint (energy_interval package') = joules \<and>
            cpu_package_update_files msr INTEL package = Inr (package', [MSR_INTEL_PACKAGE_ENERGY]) \<and>
            cpu_package_update_files msr AMD package = Inr (package', [MSR_AMD_PACKAGE_ENERGY]) \<and>
            dram_package_update_files msr INTEL package
              = Inr (package', [MSR_INTEL_DRAM_PACKAGE_ENERGY])"
proof -
  define p where "p = package\<lparr>energy_raw := raw\<rparr>"
  define q where "q = \<lfloor>energy_resolution package * of_int (spec_delta (uint (energy_raw package)) (uint raw))\<rfloor>"
  have pos: "0 < energy_resolution package" unfolding res by simp
  have pres: "energy_resolution p = (1 / 2) ^ k" and praw: "unat (energy_raw p) < 2 ^ 32"
    using res raw by (simp_all add: p_def)
  note acc = package_account_known[OF pres last praw]
  have q': "\<lfloor>energy_resolution p * of_int (spec_delta (uint (energy_raw package)) (uint (energy_raw p)))\<rfloor> = q"
    by (simp add: p_def q_def)
  have a: "package_account (energy_raw package) p =
             Inr (package\<lparr>energy_raw := raw, energy_interval := word_of_int q,
                           energy_acc := energy_acc package + word_of_int q\<rparr>)"
    using acc(1) unfolding q' by (simp add: p_def)
  have q0: "0 \<le> q" and q33: "q < 2 ^ 33" using acc(2,3) unfolding q' by simp_all
  have "uint (word_of_int q :: u64) = q mod 2 ^ 64" by (simp add: uint_word_of_int)
  also have "\<dots> = q" using q0 q33 by (intro mod_2_64_small) simp_all
  finally have uq: "uint (word_of_int q :: u64) = q" .
  have "uint (energy_raw package) < 2 ^ 32"
    unfolding uint_nat by (rule of_nat_less_numeral_power_cancel_iff[THEN iffD2, OF last])
  then have d0: "0 \<le> spec_delta (uint (energy_raw package)) (uint raw)"
    by (intro spec_delta_nonneg) simp_all
  have f1: "cpu_package_fetch_energy msr INTEL package = Inr (p, [MSR_INTEL_PACKAGE_ENERGY])"
    unfolding p_def using pos msr(1) by (rule cpu_fetch_known(1))
  have f2: "cpu_package_fetch_energy msr AMD package = Inr (p, [MSR_AMD_PACKAGE_ENERGY])"
    unfolding p_def using pos msr(2) by (rule cpu_fetch_known(2))
  have f3: "dram_package_fetch_energy msr INTEL package
              = Inr (p, [MSR_INTEL_DRAM_PACKAGE_ENERGY])"
    unfolding p_def using pos msr(3) by (rule dram_fetch_known)
  show ?thesis
    unfolding Let_def q_def[symmetric]
    using d0 uq
    by (simp add: cpu_package_update_files_def dram_package_update_files_def f1 f2 f3 a)
qed

text \<open>
  An instance with a wrapped counter: resolution \<open>2 ^ - 14\<close>, previous value 4294967000,
  new value 99704, hence a delta of 100000 counts and 6 Joules.
\<close>

theorem package_update_interval_energy_witness:
  "cpu_package_update_files (\<lambda>_. Some 99704) INTEL
      (zero_unit\<lparr>energy_resolution := 1 / 16384, energy_raw := 4294967000\<rparr>)
    = Inr (zero_unit\<lparr>energy_resolution := 1 / 16384, energy_raw := 99704,
                     energy_interval := 6, energy_acc := 6\<rparr>, [MSR_INTEL_PACKAGE_ENERGY])"
  using package_update_interval_energy[of
      "zero_unit\<lparr>energy_resolution := 1 / 16384, energy_raw := 4294967000\<rparr>" 14 99704
      "\<lambda>_. Some 99704"]
  by (simp add: spec_delta_def zero_unit_def Let_def power_one_over)

text \<open>
  Claim C1 as stated equates \<open>energy_interval\<close> with the product
  \<open>resolution * (raw - last_raw)\<close>. With resolution \<open>2 ^ - 10\<close>, previous value 1 and new
  value 2 the product is 1/1024, and the update stores 0.
\<close>

theorem package_interval_not_exact_product:
  "cpu_package_update_files (\<lambda>_. Some 2) INTEL
      (zero_unit\<lparr>energy_resolution := 1 / 1024, energy_raw := 1\<rparr>)
    = Inr (zero_unit\<lparr>energy_resolution := 1 / 1024, energy_raw := 2,
                     energy_interval := 0, energy_acc := 0\<rparr>, [MSR_INTEL_PACKAGE_ENERGY])
   \<and> real (unat (0 :: u64)) \<noteq> 1 / 1024 * (real (unat (2 :: u64)) - real (unat (1 :: u64)))"
  by (simp add: cpu_package_update_files_def cpu_package_fetch_energy_def read_msr_def
      package_account_def u64_of_double_def d_mul_def double_of_u64_def
      fl_def flp_def ilog2_def rne_def bit_length.simps Let_def zero_unit_def)


section \<open>The first sample of a unit\<close>

lemma map_update_same:
  "f v = f (s ! i) \<Longrightarrow> map f (s[i := v]) = map f s"
  by (cases "i < length s") (simp_all add: map_update list_update_same_conv list_update_beyond)

lemma mi250_first_sample:
  assumes i: "i < length s" and p: "peer (s ! i) = Some j" and j: "j < length s"
    and raw: "energy_raw (s ! i) = 0"
  shows "\<exists>s'. amd_device_fetch_energy_mi250 (Some a) (Some b) (Some (c, r, t)) i s = Inr s'
           \<and> map energy_interval s' = map energy_interval s
           \<and> map energy_acc s' = map energy_acc s"
proof -
  define s1 where "s1 = s[i := (s ! i)\<lparr>busy_percent := a\<rparr>]"
  define s2 where "s2 = s1[j := (s1 ! j)\<lparr>busy_percent := b\<rparr>]"
  define s3 where "s3 = s2[i := (s2 ! i)\<lparr>energy_raw := c, timestamp := t, energy_resolution := r\<rparr>]"
  have "amd_device_fetch_energy_mi250 (Some a) (Some b) (Some (c, r, t)) i s = Inr s3"
    using i p j raw
    by (simp add: amd_device_fetch_energy_mi250_def amd_device_fetch_activity_def Let_def
        s1_def s2_def s3_def)
  moreover have "map energy_interval s3 = map energy_interval s"
    unfolding s3_def s2_def s1_def by (simp add: map_update_same)
  moreover have "map energy_acc s3 = map energy_acc s"
    unfolding s3_def s2_def s1_def by (simp add: map_update_same)
  ultimately show ?thesis by blast
qed

lemma package_fetch_keeps_energy:
  "cpu_package_fetch_energy msr v dev = Inr (dev', reads)
     \<Longrightarrow> energy_interval dev' = energy_interval dev \<and> energy_acc dev' = energy_acc dev"
  "dram_package_fetch_energy msr v dev = Inr (dev', reads)
     \<Longrightarrow> energy_interval dev' = energy_interval dev \<and> energy_acc dev' = energy_acc dev"
  by (auto simp: cpu_package_fetch_energy_def dram_package_fetch_energy_def read_msr_def Let_def
      split: option.splits vendor.splits sum.splits if_splits)

text \<open>
  The update of a CPU or DRAM package whose \<open>energy_raw\<close> is zero: the delta is the
  counter itself.
\<close>

lemma package_update_from_zero:
  fixes package :: Unit_t and counter :: u64
  assumes zero: "energy_raw package = 0" and res: "energy_resolution package = (1 / 2) ^ k"
    and c: "unat counter < 2 ^ 32"
  defines "joules \<equiv> \<lfloor>energy_resolution package * of_int (uint counter)\<rfloor>"
  defines "package' \<equiv> package\<lparr>energy_raw := counter, energy_interval := word_of_int joules,
                                energy_acc := energy_acc package + word_of_int joules\<rparr>"
  shows "msr MSR_INTEL_PACKAGE_ENERGY = Some counter \<Longrightarrow>
           cpu_package_update_files msr INTEL package = Inr (package', [MSR_INTEL_PACKAGE_ENERGY])"
    and "msr MSR_AMD_PACKAGE_ENERGY = Some counter \<Longrightarrow>
           cpu_package_update_files msr AMD package = Inr (package', [MSR_AMD_PACKAGE_ENERGY])"
    and "msr MSR_INTEL_DRAM_PACKAGE_ENERGY = Some counter \<Longrightarrow>
           dram_package_update_files msr INTEL package
             = Inr (package', [MSR_INTEL_DRAM_PACKAGE_ENERGY])"
    and "uint (energy_interval package') = joules"
proof -
  define p where "p = package\<lparr>energy_raw := counter\<rparr>"
  have pos: "0 < energy_resolution package" unfolding res by simp
  have pres: "energy_resolution p = (1 / 2) ^ k" and praw: "unat (energy_raw p) < 2 ^ 32"
    using res c by (simp_all add: p_def)
  have l: "unat (energy_raw package) < 2 ^ 32" by (simp add: zero)
  note acc = package_account_known[OF pres l praw]
  have d: "spec_delta (uint (energy_raw package)) (uint (energy_raw p)) = uint counter"
    by (simp add: spec_delta_def zero p_def)
  have q: "\<lfloor>energy_resolution p * of_int (spec_delta (uint (energy_raw package)) (uint (energy_raw p)))\<rfloor>
           = joules"
    unfolding d by (simp add: p_def joules_def)
  have a: "package_account (energy_raw package) p = Inr package'"
    using acc(1) unfolding q by (simp add: p_def package'_def)
  have q0: "0 \<le> joules" and q33: "joules < 2 ^ 33" using acc(2,3) unfolding q by simp_all
  have "uint (word_of_int joules :: u64) = joules mod 2 ^ 64" by (simp add: uint_word_of_int)
  also have "\<dots> = joules" using q0 q33 by (intro mod_2_64_small) simp_all
  finally show "uint (energy_interval package') = joules" by (simp add: package'_def)
  show "cpu_package_update_files msr INTEL package = Inr (package', [MSR_INTEL_PACKAGE_ENERGY])"
    if m: "msr MSR_INTEL_PACKAGE_ENERGY = Some counter"
  proof -
    have "cpu_package_fetch_energy msr INTEL package = Inr (p, [MSR_INTEL_PACKAGE_ENERGY])"
      unfolding p_def using pos m by (rule cpu_fetch_known(1))
    then show ?thesis by (simp add: cpu_package_update_files_def a)
  qed
  show "cpu_package_update_files msr AMD package = Inr (package', [MSR_AMD_PACKAGE_ENERGY])"
    if m: "msr MSR_AMD_PACKAGE_ENERGY = Some counter"
  proof -
    have "cpu_package_fetch_energy msr AMD package = Inr (p, [MSR_AMD_PACKAGE_ENERGY])"
      unfolding p_def using pos m by (rule cpu_fetch_known(2))
    then show ?thesis by (simp add: cpu_package_update_files_def a)
  qed
  show "dram_package_update_files msr INTEL package
             = Inr (package', [MSR_INTEL_DRAM_PACKAGE_ENERGY])"
    if m: "msr MSR_INTEL_DRAM_PACKAGE_ENERGY = Some counter"
  proof -
    have "dram_package_fetch_energy msr INTEL package
            = Inr (p, [MSR_INTEL_DRAM_PACKAGE_ENERGY])"
      unfolding p_def using pos m by (rule dram_fetch_known)
    then show ?thesis by (simp add: dram_package_update_files_def a)
  qed
qed

lemma mock_first_update:
  "energy_raw (mock_init_unit n watts t) = 0"
  "energy_acc (mock_init_unit n watts t) = 0"
  "energy_interval (mock_init_unit n watts t) = ucast (watts * t)"
  "mock_update_files (mock_init_unit n watts t)
     = (mock_init_unit n watts t)\<lparr>energy_acc := ucast (watts * t)\<rparr>"
  by (simp_all add: mock_init_unit_def mock_update_files_def zero_unit_def)

text \<open>
  Claim C2, as the code has it. The devices that sample in their update (AMD, NVIDIA and
  Intel devices, and the MI250 update of a pair, which writes both units) test the sentinel:
  while \<open>energy_raw\<close> is still zero, and \<open>energy_interval\<close> with it, the update computes
  no delta, leaves \<open>energy_interval\<close> at zero and \<open>energy_acc\<close> as it was. A CPU or DRAM
  package takes its first sample in the fetch that \<open>cpu_init\<close> and \<open>dram_init\<close> make,
  which leaves both fields as they were; its update tests no sentinel, and from an
  \<open>energy_raw\<close> of zero it computes the delta up to the counter like from any other value:
  with a known resolution \<open>(1/2) ^ k\<close> and a counter below \<open>2 ^ 32\<close> it stores the
  integral part of \<open>resolution * counter\<close> and adds it to \<open>energy_acc\<close>. A mock unit reads
  no counter: \<open>energy_raw\<close> stays zero, \<open>energy_interval\<close> is the product of the watts
  and the interval that \<open>mock_init\<close> stores, and the first update adds it to
  \<open>energy_acc\<close>.
\<close>

theorem first_sample_no_energy:
  assumes raw: "energy_raw dev = 0" and iv: "energy_interval dev = 0"
    and s: "i < length s" "peer (s ! i) = Some j" "j < length s" "energy_raw (s ! i) = 0"
      "\<forall>u \<in> set s. energy_interval u = 0"
    and p: "energy_raw package = 0" "energy_resolution package = (1 / 2) ^ k"
      "unat counter < 2 ^ 32"
    and regs: "regs MSR_INTEL_PACKAGE_ENERGY = Some counter"
      "regs MSR_AMD_PACKAGE_ENERGY = Some counter"
      "regs MSR_INTEL_DRAM_PACKAGE_ENERGY = Some counter"
  shows "(\<exists>dev'. amd_device_fetch_energy (Some (c, r, t)) dev = Inr dev'
            \<and> energy_interval dev' = 0 \<and> energy_acc dev' = energy_acc dev)
       \<and> (\<exists>dev'. nvidia_device_update_files e dev = Inr dev'
            \<and> energy_interval dev' = 0 \<and> energy_acc dev' = energy_acc dev)
       \<and> (\<exists>dev'. intel_device_update_files e dev = Inr dev'
            \<and> energy_interval dev' = 0 \<and> energy_acc dev' = energy_acc dev)
       \<and> (\<exists>s'. amd_device_fetch_energy_mi250 (Some a) (Some b) (Some (c, r, t)) i s = Inr s'
            \<and> (\<forall>u \<in> set s'. energy_interval u = 0) \<and> map energy_acc s' = map energy_acc s)
       \<and> (\<forall>dev' reads. cpu_package_fetch_energy msr v dev = Inr (dev', reads)
            \<longrightarrow> energy_interval dev' = 0 \<and> energy_acc dev' = energy_acc dev)
       \<and> (\<forall>dev' reads. dram_package_fetch_energy msr v dev = Inr (dev', reads)
            \<longrightarrow> energy_interval dev' = 0 \<and> energy_acc dev' = energy_acc dev)
       \<and> (let joules = \<lfloor>energy_resolution package * of_int (uint counter)\<rfloor>;
               package' = package\<lparr>energy_raw := counter, energy_interval := word_of_int joules,
                                   energy_acc := energy_acc package + word_of_int joules\<rparr>
           in uint (energy_interval package') = joules \<and>
              cpu_package_update_files regs INTEL package
                = Inr (package', [MSR_INTEL_PACKAGE_ENERGY]) \<and>
              cpu_package_update_files regs AMD package
                = Inr (package', [MSR_AMD_PACKAGE_ENERGY]) \<and>
              dram_package_update_files regs INTEL package
                = Inr (package', [MSR_INTEL_DRAM_PACKAGE_ENERGY]))
       \<and> energy_raw (mock_init_unit n watts seconds) = 0
       \<and> energy_acc (mock_init_unit n watts seconds) = 0
       \<and> energy_interval (mock_init_unit n watts seconds) = ucast (watts * seconds)
       \<and> mock_update_files (mock_init_unit n watts seconds)
           = (mock_init_unit n watts seconds)\<lparr>energy_acc := ucast (watts * seconds)\<rparr>"
proof -
  have 1: "amd_device_fetch_energy (Some (c, r, t)) dev
             = Inr (dev\<lparr>energy_raw := c, timestamp := t, energy_resolution := r\<rparr>)"
    using raw by (simp add: amd_device_fetch_energy_def)
  have 2: "nvidia_device_update_files e dev = Inr (dev\<lparr>energy_raw := e\<rparr>)"
    using raw by (simp add: nvidia_device_update_files_def)
  have 3: "intel_device_update_files e dev = Inr (dev\<lparr>energy_raw := e\<rparr>)"
    using raw by (simp add: intel_device_update_files_def)
  obtain s' where 4: "amd_device_fetch_energy_mi250 (Some a) (Some b) (Some (c, r, t)) i s = Inr s'"
    and m: "map energy_interval s' = map energy_interval s" "map energy_acc s' = map energy_acc s"
    using mi250_first_sample[OF s(1-4)] by blast
  have "set (map energy_interval s') = set (map energy_interval s)" using m(1) by simp
  then have "energy_interval ` set s' = energy_interval ` set s" by simp
  then have z: "\<forall>u \<in> set s'. energy_interval u = 0" using s(5) by (metis imageE imageI)
  have 5: "\<forall>dev' reads. cpu_package_fetch_energy msr v dev = Inr (dev', reads)
            \<longrightarrow> energy_interval dev' = 0 \<and> energy_acc dev' = energy_acc dev"
    using package_fetch_keeps_energy(1)[of msr v dev] iv by auto
  have 6: "\<forall>dev' reads. dram_package_fetch_energy msr v dev = Inr (dev', reads)
            \<longrightarrow> energy_interval dev' = 0 \<and> energy_acc dev' = energy_acc dev"
    using package_fetch_keeps_energy(2)[of msr v dev] iv by auto
  note u = package_update_from_zero[OF p]
  have 7: "let joules = \<lfloor>energy_resolution package * of_int (uint counter)\<rfloor>;
               package' = package\<lparr>energy_raw := counter, energy_interval := word_of_int joules,
                                   energy_acc := energy_acc package + word_of_int joules\<rparr>
           in uint (energy_interval package') = joules \<and>
              cpu_package_update_files regs INTEL package
                = Inr (package', [MSR_INTEL_PACKAGE_ENERGY]) \<and>
              cpu_package_update_files regs AMD package
                = Inr (package', [MSR_AMD_PACKAGE_ENERGY]) \<and>
              dram_package_update_files regs INTEL package
                = Inr (package', [MSR_INTEL_DRAM_PACKAGE_ENERGY])"
    unfolding Let_def
    using u(1)[where msr = regs] u(2)[where msr = regs] u(3)[where msr = regs] u(4) regs
    by simp
  have 8: "energy_raw (mock_init_unit n watts seconds) = 0
       \<and> energy_acc (mock_init_unit n watts seconds) = 0
       \<and> energy_interval (mock_init_unit n watts seconds) = ucast (watts * seconds)
       \<and> mock_update_files (mock_init_unit n watts seconds)
           = (mock_init_unit n watts seconds)\<lparr>energy_acc := ucast (watts * seconds)\<rparr>"
    using mock_first_update[of n watts seconds] by (intro conjI)
  have a: "(\<exists>dev'. amd_device_fetch_energy (Some (c, r, t)) dev = Inr dev'
            \<and> energy_interval dev' = 0 \<and> energy_acc dev' = energy_acc dev)"
    and b: "(\<exists>dev'. nvidia_device_update_files e dev = Inr dev'
            \<and> energy_interval dev' = 0 \<and> energy_acc dev' = energy_acc dev)"
    and c: "(\<exists>dev'. intel_device_update_files e dev = Inr dev'
            \<and> energy_interval dev' = 0 \<and> energy_acc dev' = energy_acc dev)"
    using 1 2 3 iv by simp_all
  have d: "\<exists>s'. amd_device_fetch_energy_mi250 (Some a) (Some b) (Some (c, r, t)) i s = Inr s'
            \<and> (\<forall>u \<in> set s'. energy_interval u = 0) \<and> map energy_acc s' = map energy_acc s"
    using 4 z m(2) by blast
  show ?thesis
    by (rule conjI[OF a conjI[OF b conjI[OF c conjI[OF d conjI[OF 5 conjI[OF 6 conjI[OF 7 8]]]]]]])
qed

text \<open>
  An instance: the first sample of a fresh AMD device (counter 500, resolution 15.3,
  timestamp 7), and the update of a CPU package of resolution \<open>2 ^ - 10\<close> from zero to
  1024000 counts.
\<close>

theorem first_sample_no_energy_witness:
  "amd_device_fetch_energy (Some (500, 153 / 10, 7)) zero_unit
     = Inr (zero_unit\<lparr>energy_raw := 500, timestamp := 7, energy_resolution := 153 / 10\<rparr>)
   \<and> energy_interval (zero_unit\<lparr>energy_raw := 500, timestamp := 7, energy_resolution := 153 / 10\<rparr>) = 0
   \<and> cpu_package_update_files (\<lambda>_. Some 1024000) INTEL (zero_unit\<lparr>energy_resolution := 1 / 1024\<rparr>)
     = Inr (zero_unit\<lparr>energy_resolution := 1 / 1024, energy_raw := 1024000,
                      energy_interval := 1000, energy_acc := 1000\<rparr>, [MSR_INTEL_PACKAGE_ENERGY])"
  using first_sample_no_energy[of zero_unit 0 "[zero_unit\<lparr>peer := Some 1\<rparr>, zero_unit]" 1
      "zero_unit\<lparr>energy_resolution := 1 / 1024\<rparr>" 10 1024000 "\<lambda>_. Some 1024000"
      500 "153 / 10" 7 500 0 0 "\<lambda>_. None" INTEL 0 1 10]
  by (simp add: zero_unit_def amd_device_fetch_energy_def Let_def power_one_over)

text \<open>
  Claim C2 as stated has the first update of any unit leave \<open>energy_interval\<close> at zero and
  \<open>energy_acc\<close> unchanged while \<open>energy_raw\<close> is zero. A CPU package whose energy register
  reads 0 in \<open>cpu_init\<close> (with the exponent 10 in the unit register) enters its first
  update with \<open>energy_raw\<close> zero; when the register then reads 1024000 the update stores
  1000 J. A mock unit of 1 W with an interval of 10 s has 10 J after its first update.
\<close>

theorem first_update_computes_energy:
  "cpu_package_fetch_energy
       (\<lambda>r. if r = MSR_INTEL_POWER_UNIT then Some 0xA00 else Some 0) INTEL zero_unit
     = Inr (zero_unit\<lparr>energy_resolution := 1 / 1024\<rparr>,
            [MSR_INTEL_PACKAGE_ENERGY, MSR_INTEL_POWER_UNIT])
   \<and> energy_raw (zero_unit\<lparr>energy_resolution := 1 / 1024\<rparr>) = 0
   \<and> cpu_package_update_files (\<lambda>r. Some 1024000) INTEL (zero_unit\<lparr>energy_resolution := 1 / 1024\<rparr>)
     = Inr (zero_unit\<lparr>energy_resolution := 1 / 1024, energy_raw := 1024000,
                      energy_interval := 1000, energy_acc := 1000\<rparr>, [MSR_INTEL_PACKAGE_ENERGY])
   \<and> mock_init_unit 0 1 10 = zero_unit\<lparr>fixed_watts := 1, energy_interval := 10\<rparr>
   \<and> mock_update_files (zero_unit\<lparr>fixed_watts := 1, energy_interval := 10\<rparr>)
     = zero_unit\<lparr>fixed_watts := 1, energy_interval := 10, energy_acc := 10\<rparr>
   \<and> energy_raw (zero_unit\<lparr>fixed_watts := 1, energy_interval := 10\<rparr>) = 0"
  by (simp add: cpu_package_update_files_def cpu_package_fetch_energy_def read_msr_def
      decode_resolution_def energy_unit_exponent_def MSR_ENERGY_UNIT_MASK_def
      MSR_INTEL_POWER_UNIT_def MSR_INTEL_PACKAGE_ENERGY_def
      mock_init_unit_def mock_update_files_def
      package_account_def u64_of_double_def d_mul_def double_of_u64_def
      fl_def flp_def ilog2_def rne_def bit_length.simps Let_def zero_unit_def power_one_over)


section \<open>The overhead estimator\<close>

lemma fold_add_ucast:
  fixes acc :: u32
  shows "unat (fold (\<lambda>u a. a + ucast (energy_interval u)) us acc)
         = (unat acc + (\<Sum>u \<leftarrow> us. unat (energy_interval u))) mod 2 ^ 32"
proof (induction us arbitrary: acc)
  case Nil
  have "unat acc < 2 ^ 32" using unsigned_less[of acc, where 'a = nat] by simp
  then show ?case by simp
next
  case (Cons u us)
  have "unat (acc + ucast (energy_interval u) :: u32)
        = (unat acc + unat (energy_interval u) mod 2 ^ 32) mod 2 ^ 32"
    by (simp add: unat_word_ariths unsigned_ucast_eq take_bit_eq_mod)
  then show ?case
    by (simp add: Cons.IH mod_simps add.assoc)
qed

lemma sum_siblings_unat:
  "unat (sum_siblings c acc)
   = (unat acc + (\<Sum>u \<leftarrow> take (unat (n_siblings c)) (siblings c). unat (energy_interval u))) mod 2 ^ 32"
  unfolding sum_siblings_def by (rule fold_add_ucast)

lemma fold_sum_siblings:
  "unat (fold sum_siblings cs acc)
   = (unat acc + (\<Sum>c \<leftarrow> cs. \<Sum>u \<leftarrow> take (unat (n_siblings c)) (siblings c). unat (energy_interval u))) mod 2 ^ 32"
proof (induction cs arbitrary: acc)
  case Nil
  have "unat acc < 2 ^ 32" using unsigned_less[of acc, where 'a = nat] by simp
  then show ?case by simp
next
  case (Cons c cs)
  show ?case
    by (simp add: Cons.IH sum_siblings_unat mod_simps add.assoc)
qed

lemma sum_energy_interval_unat:
  "unat (sum_energy_interval ec) = spec_energy_total ec mod 2 ^ 32"
  unfolding sum_energy_interval_def spec_energy_total_def
  using fold_sum_siblings[of "components ec" 0] by simp

lemma unat_min: "unat (min a b) = min (unat a) (unat b)" for a b :: "'a::len word"
  by (simp add: min_def word_le_nat_alt)

lemma unat_max: "unat (max a b) = max (unat a) (unat b)" for a b :: "'a::len word"
  by (simp add: max_def word_le_nat_alt)

lemma overhead_interval_uint:
  "uint (overhead_interval p node) = max (uint node - uint p) 0"
proof (cases "p < node")
  case True
  then have "p \<le> node" by simp
  then have "uint (node - p) = uint node - uint p" by (simp add: uint_minus_simple_alt)
  moreover have "uint p < uint node" using True by (simp add: word_less_def)
  ultimately show ?thesis using True by (simp add: overhead_interval_def)
next
  case False
  then have "uint node \<le> uint p" by (simp add: word_less_def not_less)
  then show ?thesis using False by (simp add: overhead_interval_def)
qed

text \<open>
  Claim C6, as the code has it. All quantities are unsigned 32-bit integers. On a cycle in
  which the node power command prints a positive number below \<open>2 ^ 32\<close>, the interval is
  not zero and the measured power, the whole-number quotient of the sum of the interval
  energies by the interval, is at least 1, \<open>compute_overhead\<close> takes the overhead
  \<open>max (P_node - P_measured) 0\<close> and stores \<open>min' = min min overhead\<close>,
  \<open>max' = max max overhead\<close>, \<open>avg' = (avg * n + overhead) div (n + 1)\<close> and
  \<open>n' = n + 1\<close>, as long as the sum of the energies, \<open>avg * n + overhead\<close> and \<open>n + 1\<close>
  stay below \<open>2 ^ 32\<close>.
\<close>

theorem overhead_update:
  assumes w: "0 < watts" "watts < 2 ^ 32"
    and iv: "interval ec \<noteq> 0"
    and tot: "spec_energy_total ec < 2 ^ 32"
    and pos: "0 < spec_measured_power ec"
    and avg: "unat (mov_average (overhead ec)) * unat (n_samples (overhead ec))
              + spec_overhead watts (spec_measured_power ec) < 2 ^ 32"
    and n: "unat (n_samples (overhead ec)) + 1 < 2 ^ 32"
  shows "\<exists>st'. compute_overhead (Parsed watts) ec = Inr (ec\<lparr>overhead := st'\<rparr>) \<and>
           (let ov = spec_overhead watts (spec_measured_power ec); st = overhead ec in
              unat (overhead_min st') = min (unat (overhead_min st)) ov \<and>
              unat (overhead_max st') = max (unat (overhead_max st)) ov \<and>
              unat (mov_average st') =
                (unat (mov_average st) * unat (n_samples st) + ov) div (unat (n_samples st) + 1) \<and>
              unat (n_samples st') = unat (n_samples st) + 1)"
proof -
  define node :: u32 where "node = word_of_int watts"
  define p where "p = sum_energy_interval ec div interval ec"
  define ov where "ov = overhead_interval p node"
  define st where "st = overhead ec"
  have node: "uint node = watts" unfolding node_def using w by (simp add: uint_word_of_int)
  have f: "fetch_node_power (Parsed watts) = Inr node"
    using w by (simp add: fetch_node_power_def node_def)
  have s: "unat (sum_energy_interval ec) = spec_energy_total ec"
    unfolding sum_energy_interval_unat using tot by simp
  have p: "unat p = spec_measured_power ec"
    unfolding p_def spec_measured_power_def by (simp add: unat_div s)
  have p0: "p \<noteq> 0" using pos p by (metis less_numeral_extra(3) unat_0)
  have "uint p = int (spec_measured_power ec)" unfolding p[symmetric] by (rule uint_nat)
  then have "uint ov = max (watts - int (spec_measured_power ec)) 0"
    unfolding ov_def overhead_interval_uint node by simp
  then have ov: "unat ov = spec_overhead watts (spec_measured_power ec)"
    unfolding spec_overhead_def unat_eq_nat_uint by simp
  have n1: "unat (n_samples st + 1) = unat (n_samples st) + 1"
    using n by (simp add: unat_word_ariths st_def)
  then have n0: "n_samples st + 1 \<noteq> 0" by (metis Suc_eq_plus1 nat.distinct(1) unat_0)
  have m: "unat (mov_average st * n_samples st + ov)
           = unat (mov_average st) * unat (n_samples st) + unat ov"
    using avg unfolding ov[symmetric] st_def[symmetric]
    by (simp add: unat_word_ariths mod_simps)
  define st' where "st' = \<lparr>overhead_min = min ov (overhead_min st),
                     overhead_max = max ov (overhead_max st),
                     mov_average = (mov_average st * n_samples st + ov) div (n_samples st + 1),
                     n_samples = n_samples st + 1\<rparr>"
  have "compute_overhead (Parsed watts) ec = Inr (ec\<lparr>overhead := st'\<rparr>)"
    using iv p0 n0
    by (simp add: compute_overhead_def f Let_def p_def[symmetric] ov_def[symmetric]
        st_def[symmetric] st'_def)
  moreover have "unat (overhead_min st') = min (unat (overhead_min st)) (unat ov)"
    by (simp add: st'_def unat_min min.commute)
  moreover have "unat (overhead_max st') = max (unat (overhead_max st)) (unat ov)"
    by (simp add: st'_def unat_max max.commute)
  moreover have "unat (mov_average st')
      = (unat (mov_average st) * unat (n_samples st) + unat ov) div (unat (n_samples st) + 1)"
    by (simp add: st'_def unat_div m n1)
  moreover have "unat (n_samples st') = unat (n_samples st) + 1"
    by (simp add: st'_def n1)
  ultimately show ?thesis unfolding Let_def ov st_def by blast
qed

text \<open>
  An instance: 2500 J in 10 s against a node power of 300 W, after three samples of
  average 45 W.
\<close>

theorem overhead_update_witness:
  "compute_overhead (Parsed 300)
     \<lparr>components = [\<lparr>siblings = [zero_unit\<lparr>energy_interval := 2500\<rparr>], n_siblings = 1\<rparr>],
      interval = 10,
      overhead = \<lparr>overhead_min = 40, overhead_max = 60, mov_average = 45, n_samples = 3\<rparr>\<rparr>
   = Inr \<lparr>components = [\<lparr>siblings = [zero_unit\<lparr>energy_interval := 2500\<rparr>], n_siblings = 1\<rparr>],
      interval = 10,
      overhead = \<lparr>overhead_min = 40, overhead_max = 60, mov_average = 46, n_samples = 4\<rparr>\<rparr>"
  using overhead_update[of 300
     "\<lparr>components = [\<lparr>siblings = [zero_unit\<lparr>energy_interval := 2500\<rparr>], n_siblings = 1\<rparr>],
      interval = 10,
      overhead = \<lparr>overhead_min = 40, overhead_max = 60, mov_average = 45, n_samples = 3\<rparr>\<rparr>"]
  by (simp add: spec_measured_power_def spec_energy_total_def spec_overhead_def zero_unit_def
      compute_overhead_def fetch_node_power_def sum_energy_interval_def sum_siblings_def
      overhead_interval_def Let_def)

text \<open>
  A node whose single mock unit is set to 250 W, sampled every 10 s, while the node power
  command prints 550: the overhead of every cycle is 300 W, and the average stays at 300 W
  as long as \<open>300 * n + 300\<close> fits in 32 bits.
\<close>

lemma constant_overhead_step:
  assumes "1 \<le> k" "k < 14316557"
  shows "compute_overhead (Parsed 550)
     \<lparr>components = [\<lparr>siblings = [mock_init_unit 0 250 10], n_siblings = 1\<rparr>],
      interval = 10,
      overhead = \<lparr>overhead_min = 300, overhead_max = 300, mov_average = 300,
                  n_samples = of_nat k\<rparr>\<rparr>
   = Inr \<lparr>components = [\<lparr>siblings = [mock_init_unit 0 250 10], n_siblings = 1\<rparr>],
      interval = 10,
      overhead = \<lparr>overhead_min = 300, overhead_max = 300, mov_average = 300,
                  n_samples = of_nat (Suc k)\<rparr>\<rparr>"
proof -
  have k32: "k + 1 < 2 ^ 32" using assms by simp
  have n1: "unat (of_nat k + 1 :: u32) = k + 1"
    using k32 by (simp add: unat_word_ariths unat_of_nat)
  then have n0: "(of_nat k + 1 :: u32) \<noteq> 0" by (metis Suc_eq_plus1 nat.distinct(1) unat_0)
  have "300 * k + 300 < 2 ^ 32" using assms by simp
  then have m: "unat (300 * of_nat k + 300 :: u32) = 300 * k + 300"
    by (simp add: unat_word_ariths unat_of_nat mod_simps)
  have "unat ((300 * of_nat k + 300) div (of_nat k + 1) :: u32) = (300 * k + 300) div (k + 1)"
    by (simp only: unat_div m n1)
  also have "\<dots> = 300 * (k + 1) div (k + 1)" by (simp only: distrib_left mult_1_right)
  also have "\<dots> = 300" by (rule nonzero_mult_div_cancel_right) simp
  finally have "unat ((300 * of_nat k + 300) div (of_nat k + 1) :: u32) = unat (300 :: u32)"
    by simp
  then have d: "(300 * of_nat k + 300) div (of_nat k + 1) = (300 :: u32)"
    by (rule word_unat_eq_iff[THEN iffD2])
  show ?thesis
    using n0 d
    by (simp add: compute_overhead_def fetch_node_power_def sum_energy_interval_def
        sum_siblings_def overhead_interval_def Let_def mock_init_unit_def zero_unit_def)
qed


lemma constant_overhead_cycles:
  assumes "1 \<le> k" "k + m \<le> 14316557"
  shows "compute_overhead_cycles m (Parsed 550)
     \<lparr>components = [\<lparr>siblings = [mock_init_unit 0 250 10], n_siblings = 1\<rparr>],
      interval = 10,
      overhead = \<lparr>overhead_min = 300, overhead_max = 300, mov_average = 300,
                  n_samples = of_nat k\<rparr>\<rparr>
   = Inr \<lparr>components = [\<lparr>siblings = [mock_init_unit 0 250 10], n_siblings = 1\<rparr>],
      interval = 10,
      overhead = \<lparr>overhead_min = 300, overhead_max = 300, mov_average = 300,
                  n_samples = of_nat (k + m)\<rparr>\<rparr>"
  using assms
proof (induction m arbitrary: k)
  case 0
  show ?case by simp
next
  case (Suc m)
  have k: "k < 14316557" using Suc.prems(2) by simp
  have "1 \<le> Suc k" "Suc k + m \<le> 14316557" using Suc.prems by simp_all
  then show ?case
    using Suc.IH[of "Suc k"]
    by (simp only: compute_overhead_cycles.simps constant_overhead_step[OF Suc.prems(1) k]
        sum.case add_Suc add_Suc_right)
qed

text \<open>
  Claim C6 as stated gives the new average as \<open>(avg * n + overhead) / (n + 1)\<close> and the
  overhead as \<open>max (P_node - P_measured) 0\<close>. On the node above, started as \<open>init\<close>
  leaves it, the first 14316557 cycles keep the average at 300 W; in the next cycle
  \<open>avg * n + overhead\<close> is \<open>300 * 14316557 + 300\<close>, which exceeds \<open>2 ^ 32\<close>: the stored
  average is 0, and the quotient of the claim is 300. And when the node power command
  prints 4294967301 the cast to \<open>uint32_t\<close> leaves 5 W, less than the measured 250 W: the
  stored overhead is 0, and the overhead of the claim is 4294967051.
\<close>

theorem overhead_average_overflow:
  "compute_overhead_cycles 14316557 (Parsed 550)
     \<lparr>components = [\<lparr>siblings = [mock_init_unit 0 250 10], n_siblings = 1\<rparr>],
      interval = 10, overhead = init_overhead\<rparr>
   = Inr \<lparr>components = [\<lparr>siblings = [mock_init_unit 0 250 10], n_siblings = 1\<rparr>],
      interval = 10,
      overhead = \<lparr>overhead_min = 300, overhead_max = 300, mov_average = 300,
                  n_samples = 14316557\<rparr>\<rparr>
   \<and> compute_overhead (Parsed 550)
     \<lparr>components = [\<lparr>siblings = [mock_init_unit 0 250 10], n_siblings = 1\<rparr>],
      interval = 10,
      overhead = \<lparr>overhead_min = 300, overhead_max = 300, mov_average = 300,
                  n_samples = 14316557\<rparr>\<rparr>
   = Inr \<lparr>components = [\<lparr>siblings = [mock_init_unit 0 250 10], n_siblings = 1\<rparr>],
      interval = 10,
      overhead = \<lparr>overhead_min = 300, overhead_max = 300, mov_average = 0,
                  n_samples = 14316558\<rparr>\<rparr>
   \<and> spec_measured_power
        \<lparr>components = [\<lparr>siblings = [mock_init_unit 0 250 10], n_siblings = 1\<rparr>],
         interval = 10, overhead = init_overhead\<rparr> = 250
   \<and> spec_overhead 550 250 = 300
   \<and> (300 * 14316557 + 300) div (14316557 + 1) = (300 :: nat)
   \<and> compute_overhead (Parsed 4294967301)
     \<lparr>components = [\<lparr>siblings = [mock_init_unit 0 250 10], n_siblings = 1\<rparr>],
      interval = 10, overhead = init_overhead\<rparr>
   = Inr \<lparr>components = [\<lparr>siblings = [mock_init_unit 0 250 10], n_siblings = 1\<rparr>],
      interval = 10,
      overhead = \<lparr>overhead_min = 0, overhead_max = 0, mov_average = 0, n_samples = 1\<rparr>\<rparr>
   \<and> spec_overhead 4294967301 250 = 4294967051"
proof -
  have first: "compute_overhead (Parsed 550)
     \<lparr>components = [\<lparr>siblings = [mock_init_unit 0 250 10], n_siblings = 1\<rparr>],
      interval = 10, overhead = init_overhead\<rparr>
   = Inr \<lparr>components = [\<lparr>siblings = [mock_init_unit 0 250 10], n_siblings = 1\<rparr>],
      interval = 10,
      overhead = \<lparr>overhead_min = 300, overhead_max = 300, mov_average = 300,
                  n_samples = of_nat 1\<rparr>\<rparr>"
    by (simp add: compute_overhead_def fetch_node_power_def sum_energy_interval_def
        sum_siblings_def overhead_interval_def Let_def mock_init_unit_def zero_unit_def
        init_overhead_def INT_MAX_def)
  have s: "(14316557 :: nat) = Suc 14316556" by simp
  have run: "compute_overhead_cycles 14316557 (Parsed 550)
     \<lparr>components = [\<lparr>siblings = [mock_init_unit 0 250 10], n_siblings = 1\<rparr>],
      interval = 10, overhead = init_overhead\<rparr>
   = Inr \<lparr>components = [\<lparr>siblings = [mock_init_unit 0 250 10], n_siblings = 1\<rparr>],
      interval = 10,
      overhead = \<lparr>overhead_min = 300, overhead_max = 300, mov_average = 300,
                  n_samples = 14316557\<rparr>\<rparr>"
    unfolding s compute_overhead_cycles.simps first sum.case
    using constant_overhead_cycles[of 1 14316556] by simp
  have last: "compute_overhead (Parsed 550)
     \<lparr>components = [\<lparr>siblings = [mock_init_unit 0 250 10], n_siblings = 1\<rparr>],
      interval = 10,
      overhead = \<lparr>overhead_min = 300, overhead_max = 300, mov_average = 300,
                  n_samples = 14316557\<rparr>\<rparr>
   = Inr \<lparr>components = [\<lparr>siblings = [mock_init_unit 0 250 10], n_siblings = 1\<rparr>],
      interval = 10,
      overhead = \<lparr>overhead_min = 300, overhead_max = 300, mov_average = 0,
                  n_samples = 14316558\<rparr>\<rparr>"
    by (simp add: compute_overhead_def fetch_node_power_def sum_energy_interval_def
        sum_siblings_def overhead_interval_def Let_def mock_init_unit_def zero_unit_def)
  have big: "compute_overhead (Parsed 4294967301)
     \<lparr>components = [\<lparr>siblings = [mock_init_unit 0 250 10], n_siblings = 1\<rparr>],
      interval = 10, overhead = init_overhead\<rparr>
   = Inr \<lparr>components = [\<lparr>siblings = [mock_init_unit 0 250 10], n_siblings = 1\<rparr>],
      interval = 10,
      overhead = \<lparr>overhead_min = 0, overhead_max = 0, mov_average = 0, n_samples = 1\<rparr>\<rparr>"
    by (simp add: compute_overhead_def fetch_node_power_def sum_energy_interval_def
        sum_siblings_def overhead_interval_def Let_def mock_init_unit_def zero_unit_def
        init_overhead_def INT_MAX_def)
  have p: "spec_measured_power
        \<lparr>components = [\<lparr>siblings = [mock_init_unit 0 250 10], n_siblings = 1\<rparr>],
         interval = 10, overhead = init_overhead\<rparr> = 250"
    by (simp add: spec_measured_power_def spec_energy_total_def mock_init_unit_def zero_unit_def)
  have o: "spec_overhead 550 250 = 300" "spec_overhead 4294967301 250 = 4294967051"
    by (simp_all add: spec_overhead_def)
  have q: "(300 * 14316557 + 300) div (14316557 + 1) = (300 :: nat)" by simp
  show ?thesis using run last big p o q by (intro conjI)
qed

text \<open>
  Claim C7. In every state of the estimator, a cycle whose measured power is zero (the sum
  of the interval energies is less than the interval) returns with the four statistics as
  they were: the process either goes on with the same state or exits in
  \<open>fetch_node_power\<close>.
\<close>

theorem overhead_degenerate_sample:
  assumes "interval ec \<noteq> 0" and "sum_energy_interval ec div interval ec = 0"
  shows "(0 < watts \<longrightarrow> compute_overhead (Parsed watts) ec = Inr ec)
       \<and> (\<forall>ec'. compute_overhead cmd ec = Inr ec' \<longrightarrow> overhead ec' = overhead ec)"
  using assms
  by (auto simp: compute_overhead_def fetch_node_power_def Let_def split: sum.splits)

text \<open>
  An instance: 5 J in 10 s.
\<close>

theorem overhead_degenerate_sample_witness:
  "compute_overhead (Parsed 300)
     \<lparr>components = [\<lparr>siblings = [zero_unit\<lparr>energy_interval := 5\<rparr>], n_siblings = 1\<rparr>],
      interval = 10,
      overhead = \<lparr>overhead_min = 50, overhead_max = 50, mov_average = 50, n_samples = 1\<rparr>\<rparr>
   = Inr \<lparr>components = [\<lparr>siblings = [zero_unit\<lparr>energy_interval := 5\<rparr>], n_siblings = 1\<rparr>],
      interval = 10,
      overhead = \<lparr>overhead_min = 50, overhead_max = 50, mov_average = 50, n_samples = 1\<rparr>\<rparr>"
  using overhead_degenerate_sample[of
     "\<lparr>components = [\<lparr>siblings = [zero_unit\<lparr>energy_interval := 5\<rparr>], n_siblings = 1\<rparr>],
      interval = 10,
      overhead = \<lparr>overhead_min = 50, overhead_max = 50, mov_average = 50, n_samples = 1\<rparr>\<rparr>" 300]
  by (simp add: sum_energy_interval_def sum_siblings_def zero_unit_def)

text \<open>
  Claim C8 against the code. \<open>init\<close> stores \<open>INT_MAX\<close>, \<open>2 ^ 31 - 1\<close>, in the
  \<open>uint32_t\<close> field \<open>min\<close>, whose largest value is \<open>2 ^ 32 - 1\<close>. A first sample with a
  node power of 3000000000 W and a measured power of 1 W has an overhead of 2999999999 W,
  and \<open>min\<close> stays at \<open>2 ^ 31 - 1\<close>.
\<close>

theorem overhead_min_not_lowered:
  "overhead_min init_overhead = 2147483647
   \<and> overhead_min init_overhead \<noteq> - 1
   \<and> compute_overhead (Parsed 3000000000)
     \<lparr>components = [\<lparr>siblings = [zero_unit\<lparr>energy_interval := 10\<rparr>], n_siblings = 1\<rparr>],
      interval = 10, overhead = init_overhead\<rparr>
   = Inr \<lparr>components = [\<lparr>siblings = [zero_unit\<lparr>energy_interval := 10\<rparr>], n_siblings = 1\<rparr>],
      interval = 10,
      overhead = \<lparr>overhead_min = 2147483647, overhead_max = 2999999999,
                  mov_average = 2999999999, n_samples = 1\<rparr>\<rparr>"
  by (simp add: init_overhead_def INT_MAX_def zero_unit_def compute_overhead_def
      fetch_node_power_def sum_energy_interval_def sum_siblings_def overhead_interval_def Let_def)


section \<open>Intel GPUs\<close>

lemma fl_power2_exact: "fl (2 ^ n) = 2 ^ n"
  using fl_exact[of 1 "int n"] by simp

lemma double_of_u64_bounds: "0 \<le> double_of_u64 w" "double_of_u64 w \<le> 2 ^ 64"
proof -
  show "0 \<le> double_of_u64 w" unfolding double_of_u64_def
    by (rule fl_nonneg) (rule of_nat_0_le_iff)
  have "unat w < 2 ^ 64" using unsigned_less[of w, where 'a = nat] by simp
  then have "unat w \<le> 2 ^ 64" by simp
  then have "real (unat w) \<le> 2 ^ 64"
    by (rule of_nat_le_numeral_power_cancel_iff[THEN iffD2])
  then have "fl (real (unat w)) \<le> fl (2 ^ 64)" by (rule fl_mono)
  then show "double_of_u64 w \<le> 2 ^ 64" unfolding double_of_u64_def fl_power2_exact .
qed

text \<open>Dividing a 64-bit count by a constant of at least 2 stays in the range of \<open>uint64_t\<close>.\<close>

lemma u64_of_scaled_count:
  assumes "2 \<le> c"
  shows "u64_of_double (d_div (double_of_u64 w) c)
           = Inr (word_of_nat (nat \<lfloor>d_div (double_of_u64 w) c\<rfloor>))"
proof -
  have c: "0 < c" using assms by simp
  have "double_of_u64 w / c \<le> 2 ^ 64 / c"
    using double_of_u64_bounds(2)[of w] c by (simp add: divide_right_mono)
  also have "\<dots> \<le> 2 ^ 64 / 2" using assms by (intro divide_left_mono) simp_all
  finally have "double_of_u64 w / c \<le> 2 ^ 63" by simp
  then have "fl (double_of_u64 w / c) \<le> fl (2 ^ 63)" by (rule fl_mono)
  then have hi: "d_div (double_of_u64 w) c < 2 ^ 64"
    unfolding d_div_def fl_power2_exact by simp
  have "0 \<le> double_of_u64 w / c" using double_of_u64_bounds(1)[of w] c by simp
  then have lo: "0 \<le> d_div (double_of_u64 w) c" unfolding d_div_def by (rule fl_nonneg)
  show ?thesis using lo hi by (rule u64_of_double_floor)
qed

text \<open>
  Below \<open>2 ^ 53\<close> the quotient by a million, computed in binary64 and truncated, is the
  integer quotient: the rounding error of the division is less than \<open>10 ^ - 6\<close>, the least
  distance of an inexact quotient to the next integer.
\<close>

lemma floor_fl_div_million:
  assumes "n < 2 ^ 53"
  shows "\<lfloor>fl (real n / 10 ^ 6)\<rfloor> = int (n div 10 ^ 6)"
proof -
  define q where "q = n div 10 ^ 6"
  define r where "r = n mod 10 ^ 6"
  define x where "x = real n / 10 ^ 6"
  have n: "n = q * 10 ^ 6 + r" by (simp add: q_def r_def)
  have r: "r \<le> 999999" using mod_less_divisor[of "10 ^ 6" n] by (simp add: r_def)
  have x: "x = real q + real r / 10 ^ 6" by (simp add: x_def n field_simps)
  have x0: "0 \<le> x" by (simp add: x_def)
  have "real r \<le> 999999" using r by simp
  then have xle: "x \<le> real q + 1 - 1 / 10 ^ 6" by (simp add: x field_simps)
  have "real n < 2 ^ 53" by (rule of_nat_less_numeral_power_cancel_iff[THEN iffD2, OF assms])
  then have "x / 2 ^ 53 < 1 / 10 ^ 6" by (simp add: x_def field_simps)
  moreover have "\<bar>fl x - x\<bar> \<le> x / 2 ^ 53" using fl_rel_err[of x] x0 by simp
  ultimately have up: "fl x < real q + 1" using xle by linarith
  have "q \<le> n" by (simp add: q_def)
  then have "q \<le> 2 ^ 53" using assms by linarith
  then have "fl (real q) = real q" by (rule fl_of_nat_exact)
  moreover have "real q \<le> x" by (simp add: x)
  ultimately have lo: "real q \<le> fl x" using fl_mono[of "real q" x] by simp
  have "\<lfloor>fl x\<rfloor> = int q" using lo up by (simp add: floor_eq_iff)
  then show ?thesis by (simp add: x_def q_def)
qed

lemma intel_joules_total:
  "intel_joules delta = Inr (word_of_nat (nat \<lfloor>d_div (double_of_u64 delta) (10 ^ 6)\<rfloor>))"
  unfolding intel_joules_def by (rule u64_of_scaled_count) simp

lemma intel_joules_exact:
  assumes "unat delta < 2 ^ 53"
  shows "intel_joules delta = Inr (word_of_nat (unat delta div 10 ^ 6))"
proof -
  have "unat delta \<le> 2 ^ 53" using assms by simp
  then have d: "double_of_u64 delta = real (unat delta)" by (rule double_of_u64_exact)
  show ?thesis
    unfolding intel_joules_total d d_div_def floor_fl_div_million[OF assms] by simp
qed

text \<open>
  Claim C10. For an Intel unit whose model is Max 1550, on a sample that is not the first
  (\<open>energy_raw\<close> is not zero) and whose counter has not decreased, the interval energy is
  the delta of the counter in microjoules, converted to Joules, then halved by integer
  division; the accumulator grows by that half. Nothing else enters the result: neither
  the utilization nor the timestamp of the unit. For a delta below \<open>2 ^ 53\<close> microjoules
  the conversion is the integer quotient by \<open>10 ^ 6\<close>.
\<close>

theorem intel_max1550_half_split:
  assumes m: "model dev = MAX1550"
    and first: "energy_raw dev \<noteq> 0" and mono: "energy_raw dev \<le> raw"
  shows "\<exists>joules. intel_joules (raw - energy_raw dev) = Inr joules
           \<and> intel_device_update_files raw dev
               = Inr (dev\<lparr>energy_raw := raw, energy_interval := joules div 2,
                          energy_acc := energy_acc dev + joules div 2\<rparr>)
           \<and> (unat (raw - energy_raw dev) < 2 ^ 53
                \<longrightarrow> unat joules = unat (raw - energy_raw dev) div 10 ^ 6)"
proof -
  define joules :: u64
    where "joules = word_of_nat (nat \<lfloor>d_div (double_of_u64 (raw - energy_raw dev)) (10 ^ 6)\<rfloor>)"
  have j: "intel_joules (raw - energy_raw dev) = Inr joules"
    unfolding joules_def by (rule intel_joules_total)
  have u: "intel_device_update_files raw dev
           = Inr (dev\<lparr>energy_raw := raw, energy_interval := joules div 2,
                      energy_acc := energy_acc dev + joules div 2\<rparr>)"
    using m first mono by (simp add: intel_device_update_files_def Let_def j)
  have e: "unat joules = unat (raw - energy_raw dev) div 10 ^ 6"
    if lt: "unat (raw - energy_raw dev) < 2 ^ 53"
  proof -
    have "Inr joules = (Inr (word_of_nat (unat (raw - energy_raw dev) div 10 ^ 6)) :: err + u64)"
      using intel_joules_exact[OF lt] j by simp
    then have "joules = word_of_nat (unat (raw - energy_raw dev) div 10 ^ 6)" by simp
    moreover have "unat (raw - energy_raw dev) div 10 ^ 6 < 2 ^ 64"
      using lt by (simp add: div_less_dividend less_imp_le order.strict_trans1[OF div_le_dividend])
    ultimately show ?thesis by (simp add: unat_of_nat)
  qed
  show ?thesis using j u e by blast
qed

text \<open>
  An instance: a delta of 7500000 microjoules gives 7 Joules, and 3 for the tile.
\<close>

theorem intel_max1550_half_split_witness:
  "intel_device_update_files 7500001 (zero_unit\<lparr>model := 1550, energy_raw := 1\<rparr>)
     = Inr (zero_unit\<lparr>model := 1550, energy_raw := 7500001, energy_interval := 3,
                      energy_acc := 3\<rparr>)"
  using intel_max1550_half_split[of "zero_unit\<lparr>model := 1550, energy_raw := 1\<rparr>" 7500001]
    intel_joules_exact[of 7500000]
  by (simp add: MAX1550_def zero_unit_def)


section \<open>CPU and DRAM packages: the resolution\<close>

lemma decode_resolution_pos: "0 < decode_resolution msr_unit"
  by (simp add: decode_resolution_def)

lemma energy_unit_exponent_le: "energy_unit_exponent msr_unit \<le> 31"
proof -
  have "drop_bit 8 msr_unit AND MSR_ENERGY_UNIT_MASK \<le> MSR_ENERGY_UNIT_MASK"
    by (rule word_and_le1)
  then have "unat (drop_bit 8 msr_unit AND MSR_ENERGY_UNIT_MASK) \<le> unat MSR_ENERGY_UNIT_MASK"
    by (simp add: word_le_nat_alt)
  then show ?thesis by (simp add: energy_unit_exponent_def MSR_ENERGY_UNIT_MASK_def)
qed

lemma cpu_fetch_cases:
  assumes "cpu_package_fetch_energy msr v p = Inr (p', reads)"
  shows "(0 < energy_resolution p \<and> energy_resolution p' = energy_resolution p
            \<and> unit_register_reads reads = 0)
       \<or> (\<not> 0 < energy_resolution p \<and> unit_register_reads reads = 1
            \<and> (\<exists>msr_unit. energy_resolution p' = decode_resolution msr_unit
                  \<and> (msr MSR_INTEL_POWER_UNIT = Some msr_unit \<and> v = INTEL
                       \<or> msr MSR_AMD_POWER_UNIT = Some msr_unit \<and> v = AMD)))"
  using assms
  by (auto simp: cpu_package_fetch_energy_def read_msr_def Let_def unit_register_reads_def
      MSR_INTEL_POWER_UNIT_def MSR_AMD_POWER_UNIT_def MSR_AMD_PACKAGE_ENERGY_def
      MSR_INTEL_PACKAGE_ENERGY_def
      split: option.splits vendor.splits if_splits)

lemma dram_fetch_cases:
  assumes "dram_package_fetch_energy msr v p = Inr (p', reads)"
  shows "(0 < energy_resolution p \<and> energy_resolution p' = energy_resolution p
            \<and> unit_register_reads reads = 0)
       \<or> (\<not> 0 < energy_resolution p \<and> unit_register_reads reads = 1
            \<and> (\<exists>msr_unit. energy_resolution p' = decode_resolution msr_unit
                  \<and> msr MSR_INTEL_POWER_UNIT = Some msr_unit \<and> v = INTEL))"
  using assms
  by (auto simp: dram_package_fetch_energy_def read_msr_def Let_def unit_register_reads_def
      MSR_INTEL_POWER_UNIT_def MSR_AMD_POWER_UNIT_def MSR_INTEL_DRAM_PACKAGE_ENERGY_def
      split: option.splits vendor.splits if_splits)

lemma package_account_resolution:
  "package_account l p = Inr p' \<Longrightarrow> energy_resolution p' = energy_resolution p"
  by (auto simp: package_account_def Let_def split: sum.splits)

lemma cpu_update_known:
  assumes "cpu_package_update_files msr v p = Inr (p', reads)" and "0 < energy_resolution p"
  shows "energy_resolution p' = energy_resolution p \<and> unit_register_reads reads = 0"
proof -
  obtain q where f: "cpu_package_fetch_energy msr v p = Inr (q, reads)"
    and a: "package_account (energy_raw p) q = Inr p'"
    using assms(1)
    by (auto simp: cpu_package_update_files_def Let_def split: sum.splits prod.splits)
  show ?thesis
    using cpu_fetch_cases[OF f] package_account_resolution[OF a] assms(2) by auto
qed

lemma dram_update_known:
  assumes "dram_package_update_files msr v p = Inr (p', reads)" and "0 < energy_resolution p"
  shows "energy_resolution p' = energy_resolution p \<and> unit_register_reads reads = 0"
proof -
  obtain q where f: "dram_package_fetch_energy msr v p = Inr (q, reads)"
    and a: "package_account (energy_raw p) q = Inr p'"
    using assms(1)
    by (auto simp: dram_package_update_files_def Let_def split: sum.splits prod.splits)
  show ?thesis
    using dram_fetch_cases[OF f] package_account_resolution[OF a] assms(2) by auto
qed

lemma unit_register_reads_append:
  "unit_register_reads (xs @ ys) = unit_register_reads xs + unit_register_reads ys"
  by (simp add: unit_register_reads_def)

text \<open>
  Any number of cycles on a package whose resolution is known keeps the resolution and never
  reads the unit register, for every update function that does so in one cycle.
\<close>

lemma package_cycles_known:
  assumes step: "\<And>msr p p' reads. update msr v p = Inr (p', reads) \<Longrightarrow> 0 < energy_resolution p
             \<Longrightarrow> energy_resolution p' = energy_resolution p \<and> unit_register_reads reads = 0"
  shows "package_cycles update msrs v p = Inr (p', reads) \<Longrightarrow> 0 < energy_resolution p
           \<Longrightarrow> energy_resolution p' = energy_resolution p \<and> unit_register_reads reads = 0"
proof (induction msrs arbitrary: p p' reads)
  case Nil
  then show ?case by (simp add: unit_register_reads_def)
next
  case (Cons msr msrs)
  from Cons.prems(1) obtain q r1 r2 where u: "update msr v p = Inr (q, r1)"
    and c: "package_cycles update msrs v q = Inr (p', r2)" and r: "reads = r1 @ r2"
    by (auto split: sum.splits prod.splits)
  from step[OF u Cons.prems(2)]
  have q: "energy_resolution q = energy_resolution p" "unit_register_reads r1 = 0" by simp_all
  from Cons.IH[OF c] q(1) Cons.prems(2)
  have "energy_resolution p' = energy_resolution q \<and> unit_register_reads r2 = 0" by simp
  then show ?case using q r by (simp add: unit_register_reads_append)
qed

text \<open>
  Claim C9. Once \<open>energy_resolution\<close> is strictly positive, an update of a CPU or DRAM
  package neither changes it nor reads the unit register again. Over the whole life of a
  package, the fetch of the initialisation and any number of updates, the unit register is
  read once; the resolution that results is \<open>(1/2) ^ e\<close>, where \<open>e\<close> is the field of five
  bits above bit 8 of that register, and it is strictly positive.
\<close>

theorem resolution_fetched_once:
  "(\<forall>p' reads. cpu_package_update_files msr v p = Inr (p', reads) \<and> 0 < energy_resolution p
       \<longrightarrow> energy_resolution p' = energy_resolution p \<and> unit_register_reads reads = 0)
   \<and> (\<forall>p' reads. dram_package_update_files msr v p = Inr (p', reads) \<and> 0 < energy_resolution p
       \<longrightarrow> energy_resolution p' = energy_resolution p \<and> unit_register_reads reads = 0)
   \<and> (\<forall>p' reads. cpu_package_lifetime msr msrs v i = Inr (p', reads)
       \<longrightarrow> unit_register_reads reads = 1 \<and> 0 < energy_resolution p'
           \<and> (\<exists>msr_unit. energy_resolution p' = (1 / 2) ^ energy_unit_exponent msr_unit
                 \<and> energy_unit_exponent msr_unit \<le> 31
                 \<and> (msr MSR_INTEL_POWER_UNIT = Some msr_unit \<and> v = INTEL
                      \<or> msr MSR_AMD_POWER_UNIT = Some msr_unit \<and> v = AMD)))
   \<and> (\<forall>p' reads. dram_package_lifetime msr msrs v i = Inr (p', reads)
       \<longrightarrow> unit_register_reads reads = 1 \<and> 0 < energy_resolution p'
           \<and> (\<exists>msr_unit. energy_resolution p' = (1 / 2) ^ energy_unit_exponent msr_unit
                 \<and> energy_unit_exponent msr_unit \<le> 31
                 \<and> msr MSR_INTEL_POWER_UNIT = Some msr_unit \<and> v = INTEL))"
proof (intro conjI allI impI)
  fix p' reads
  assume "cpu_package_update_files msr v p = Inr (p', reads) \<and> 0 < energy_resolution p"
  then show "energy_resolution p' = energy_resolution p" "unit_register_reads reads = 0"
    using cpu_update_known by blast+
next
  fix p' reads
  assume "dram_package_update_files msr v p = Inr (p', reads) \<and> 0 < energy_resolution p"
  then show "energy_resolution p' = energy_resolution p" "unit_register_reads reads = 0"
    using dram_update_known by blast+
next
  fix p' reads
  assume l: "cpu_package_lifetime msr msrs v i = Inr (p', reads)"
  then obtain q r1 r2 where f: "cpu_package_fetch_energy msr v (zero_unit\<lparr>unit_id := i\<rparr>) = Inr (q, r1)"
    and c: "package_cycles cpu_package_update_files msrs v q = Inr (p', r2)"
    and r: "reads = r1 @ r2"
    by (auto simp: cpu_package_lifetime_def split: sum.splits prod.splits)
  from cpu_fetch_cases[OF f] obtain msr_unit where
    r1: "unit_register_reads r1 = 1" and q: "energy_resolution q = decode_resolution msr_unit"
    and m: "msr MSR_INTEL_POWER_UNIT = Some msr_unit \<and> v = INTEL
            \<or> msr MSR_AMD_POWER_UNIT = Some msr_unit \<and> v = AMD"
    by (auto simp: zero_unit_def)
  have qpos: "0 < energy_resolution q" unfolding q by (rule decode_resolution_pos)
  have k: "energy_resolution p' = energy_resolution q \<and> unit_register_reads r2 = 0"
    using package_cycles_known[of cpu_package_update_files v msrs q p' r2] cpu_update_known c qpos
    by blast
  show "unit_register_reads reads = 1" using r r1 k by (simp add: unit_register_reads_append)
  show "0 < energy_resolution p'" using k qpos by simp
  show "\<exists>msr_unit. energy_resolution p' = (1 / 2) ^ energy_unit_exponent msr_unit
                 \<and> energy_unit_exponent msr_unit \<le> 31
                 \<and> (msr MSR_INTEL_POWER_UNIT = Some msr_unit \<and> v = INTEL
                      \<or> msr MSR_AMD_POWER_UNIT = Some msr_unit \<and> v = AMD)"
    using k q m energy_unit_exponent_le[of msr_unit] unfolding decode_resolution_def by auto
next
  fix p' reads
  assume l: "dram_package_lifetime msr msrs v i = Inr (p', reads)"
  then obtain q r1 r2 where f: "dram_package_fetch_energy msr v (zero_unit\<lparr>unit_id := i\<rparr>) = Inr (q, r1)"
    and c: "package_cycles dram_package_update_files msrs v q = Inr (p', r2)"
    and r: "reads = r1 @ r2"
    by (auto simp: dram_package_lifetime_def split: sum.splits prod.splits)
  from dram_fetch_cases[OF f] obtain msr_unit where
    r1: "unit_register_reads r1 = 1" and q: "energy_resolution q = decode_resolution msr_unit"
    and m: "msr MSR_INTEL_POWER_UNIT = Some msr_unit \<and> v = INTEL"
    by (auto simp: zero_unit_def)
  have qpos: "0 < energy_resolution q" unfolding q by (rule decode_resolution_pos)
  have k: "energy_resolution p' = energy_resolution q \<and> unit_register_reads r2 = 0"
    using package_cycles_known[of dram_package_update_files v msrs q p' r2] dram_update_known c qpos
    by blast
  show "unit_register_reads reads = 1" using r r1 k by (simp add: unit_register_reads_append)
  show "0 < energy_resolution p'" using k qpos by simp
  show "\<exists>msr_unit. energy_resolution p' = (1 / 2) ^ energy_unit_exponent msr_unit
                 \<and> energy_unit_exponent msr_unit \<le> 31
                 \<and> msr MSR_INTEL_POWER_UNIT = Some msr_unit \<and> v = INTEL"
    using k q m energy_unit_exponent_le[of msr_unit] unfolding decode_resolution_def by auto
qed


text \<open>
  An Intel package whose unit register holds the exponent 14, through two updates.
\<close>

theorem resolution_fetched_once_witness:
  "cpu_package_lifetime (\<lambda>r. if r = MSR_INTEL_POWER_UNIT then Some 0xA0E03 else Some 100)
      [\<lambda>r. Some 16484, \<lambda>r. Some 32868] INTEL 0
   = Inr (zero_unit\<lparr>energy_resolution := 1 / 16384, energy_raw := 32868,
                    energy_interval := 1, energy_acc := 2\<rparr>,
          [MSR_INTEL_PACKAGE_ENERGY, MSR_INTEL_POWER_UNIT, MSR_INTEL_PACKAGE_ENERGY,
           MSR_INTEL_PACKAGE_ENERGY])
   \<and> unit_register_reads [MSR_INTEL_PACKAGE_ENERGY, MSR_INTEL_POWER_UNIT,
         MSR_INTEL_PACKAGE_ENERGY, MSR_INTEL_PACKAGE_ENERGY] = 1"
  using resolution_fetched_once[of
      "\<lambda>r. if r = MSR_INTEL_POWER_UNIT then Some 0xA0E03 else Some 100" INTEL zero_unit
      "[\<lambda>r. Some 16484, \<lambda>r. Some 32868]" 0]
  by (simp add: cpu_package_lifetime_def cpu_package_update_files_def
      cpu_package_fetch_energy_def read_msr_def decode_resolution_def energy_unit_exponent_def
      MSR_ENERGY_UNIT_MASK_def MSR_INTEL_POWER_UNIT_def MSR_INTEL_PACKAGE_ENERGY_def
      MSR_AMD_POWER_UNIT_def unit_register_reads_def power_one_over
      package_account_def u64_of_double_def d_mul_def double_of_u64_def
      fl_def flp_def ilog2_def rne_def bit_length.simps Let_def zero_unit_def)


section \<open>MI250: the share ratio\<close>

lemma c0005_value: "fl (5 / 1000) = 5764607523034235 / 2 ^ 60"
  by (simp add: fl_def flp_def ilog2_def rne_def bit_length.simps Let_def)

lemma c0005_times_100: "fl (fl (5 / 1000) * 100) = 1 / 2"
  unfolding c0005_value
  by (simp add: fl_def flp_def ilog2_def rne_def bit_length.simps Let_def)

lemma fl_half: "fl (1 / 2) = 1 / 2" "fl (- (1 / 2)) = - (1 / 2)" "fl 1 = 1"
  using fl_exact[of 1 "- 1"] fl_exact[of "- 1" "- 1"] fl_exact[of 1 0] by simp_all

lemma c0005_bounds: "0 < fl (5 / 1000)" "\<bar>fl (5 / 1000) - 5 / 1000\<bar> \<le> (5 / 1000) / 2 ^ 53"
proof -
  show "0 < fl (5 / 1000)" unfolding c0005_value by simp
  show "\<bar>fl (5 / 1000) - 5 / 1000\<bar> \<le> (5 / 1000) / 2 ^ 53"
    using fl_rel_err[of "5 / 1000"] by simp
qed

text \<open>The product \<open>0.005 * busy\<close> for a utilization of at most 100.\<close>

lemma busy_term_bounds:
  assumes "unat busy \<le> 100"
  shows "0 \<le> d_mul (fl (5 / 1000)) (double_of_u32 busy)"
    and "d_mul (fl (5 / 1000)) (double_of_u32 busy) \<le> 1 / 2"
    and "\<bar>d_mul (fl (5 / 1000)) (double_of_u32 busy) - 5 / 1000 * real (unat busy)\<bar> \<le> 2 / 2 ^ 53"
proof -
  define c where "c = fl (5 / 1000)"
  define a where "a = real (unat busy)"
  have a: "0 \<le> a" "a \<le> 100"
    using of_nat_mono[OF assms, where 'a = real] of_nat_0_le_iff[of "unat busy", where 'a = real]
    by (simp_all add: a_def)
  have c: "0 < c" "\<bar>c - 5 / 1000\<bar> \<le> (5 / 1000) / 2 ^ 53"
    using c0005_bounds by (simp_all add: c_def)
  have ca0: "0 \<le> c * a" using a c by simp
  have ca1: "c * a \<le> c * 100" using a c by simp
  show lo: "0 \<le> d_mul (fl (5 / 1000)) (double_of_u32 busy)"
    unfolding d_mul_def double_of_u32_exact c_def[symmetric] a_def[symmetric]
    by (rule fl_nonneg[OF ca0])
  have "fl (c * a) \<le> fl (c * 100)" by (rule fl_mono[OF ca1])
  then show hi: "d_mul (fl (5 / 1000)) (double_of_u32 busy) \<le> 1 / 2"
    unfolding d_mul_def double_of_u32_exact c_def[symmetric] a_def[symmetric]
    using c0005_times_100 by (simp add: c_def)
  have "c \<le> 5 / 1000 + (5 / 1000) / 2 ^ 53" using c(2) by linarith
  then have "c * 100 \<le> 1" by simp
  then have ca: "c * a \<le> 1" using ca1 by linarith
  define u :: real where "u = 1 / 2 ^ 53"
  have "\<bar>c * a\<bar> / 2 ^ 53 \<le> 1 / 2 ^ 53" using ca ca0 by (simp add: divide_right_mono)
  then have e1: "\<bar>fl (c * a) - c * a\<bar> \<le> u"
    unfolding u_def using fl_rel_err[of "c * a"] by linarith
  have "c * a - 5 / 1000 * a = (c - 5 / 1000) * a" by (simp add: algebra_simps)
  then have "\<bar>c * a - 5 / 1000 * a\<bar> = \<bar>c - 5 / 1000\<bar> * \<bar>a\<bar>" by (simp only: abs_mult)
  also have "\<dots> = \<bar>c - 5 / 1000\<bar> * a" using a by simp
  finally have "\<bar>c * a - 5 / 1000 * a\<bar> = \<bar>c - 5 / 1000\<bar> * a" .
  also have "\<dots> \<le> ((5 / 1000) / 2 ^ 53) * 100"
    using c(2) a by (intro mult_mono) simp_all
  finally have e2: "\<bar>c * a - 5 / 1000 * a\<bar> \<le> u" by (simp add: u_def)
  have u2: "2 / 2 ^ 53 = 2 * u" by (simp add: u_def)
  show "\<bar>d_mul (fl (5 / 1000)) (double_of_u32 busy) - 5 / 1000 * real (unat busy)\<bar> \<le> 2 / 2 ^ 53"
    unfolding d_mul_def double_of_u32_exact c_def[symmetric] a_def[symmetric] u2
    using e1 e2 by linarith
qed

lemma energy_ratio_range:
  assumes "unat a \<le> 100" "unat b \<le> 100"
  shows "0 \<le> energy_ratio a b" and "energy_ratio a b \<le> 1"
proof -
  define x where "x = d_mul (fl (5 / 1000)) (double_of_u32 a)"
  define y where "y = d_mul (fl (5 / 1000)) (double_of_u32 b)"
  have x: "0 \<le> x" "x \<le> 1 / 2" using busy_term_bounds(1,2)[OF assms(1)] by (simp_all add: x_def)
  have y: "0 \<le> y" "y \<le> 1 / 2" using busy_term_bounds(1,2)[OF assms(2)] by (simp_all add: y_def)
  have "fl (- (1 / 2)) \<le> fl (x - y)" by (rule fl_mono) (use x y in linarith)
  then have lo: "- (1 / 2) \<le> d_sub x y" unfolding d_sub_def fl_half .
  have "fl (x - y) \<le> fl (1 / 2)" by (rule fl_mono) (use x y in linarith)
  then have hi: "d_sub x y \<le> 1 / 2" unfolding d_sub_def fl_half .
  have "fl 0 \<le> fl (d_sub x y + 1 / 2)" by (rule fl_mono) (use lo in linarith)
  then show "0 \<le> energy_ratio a b"
    unfolding energy_ratio_def x_def[symmetric] y_def[symmetric] d_add_def by simp
  have "fl (d_sub x y + 1 / 2) \<le> fl 1" by (rule fl_mono) (use hi in linarith)
  then show "energy_ratio a b \<le> 1"
    unfolding energy_ratio_def x_def[symmetric] y_def[symmetric] d_add_def fl_half .
qed

lemma energy_ratio_mono:
  assumes "unat a \<le> unat a'" "unat b' \<le> unat b"
  shows "energy_ratio a b \<le> energy_ratio a' b'"
proof -
  define c where "c = fl (5 / 1000)"
  have c: "0 \<le> c" using c0005_bounds(1) by (simp add: c_def)
  have "real (unat a) \<le> real (unat a')" using assms(1) by (rule of_nat_mono)
  then have "c * real (unat a) \<le> c * real (unat a')" using c by (rule mult_left_mono)
  then have x: "d_mul c (double_of_u32 a) \<le> d_mul c (double_of_u32 a')"
    unfolding d_mul_def double_of_u32_exact by (rule fl_mono)
  have "real (unat b') \<le> real (unat b)" using assms(2) by (rule of_nat_mono)
  then have "c * real (unat b') \<le> c * real (unat b)" using c by (rule mult_left_mono)
  then have y: "d_mul c (double_of_u32 b') \<le> d_mul c (double_of_u32 b)"
    unfolding d_mul_def double_of_u32_exact by (rule fl_mono)
  have "d_sub (d_mul c (double_of_u32 a)) (d_mul c (double_of_u32 b))
        \<le> d_sub (d_mul c (double_of_u32 a')) (d_mul c (double_of_u32 b'))"
    unfolding d_sub_def by (rule fl_mono) (use x y in linarith)
  then show ?thesis
    unfolding energy_ratio_def c_def[symmetric] d_add_def by (intro fl_mono) linarith
qed

lemma energy_ratio_approx:
  assumes "unat a \<le> 100" "unat b \<le> 100"
  shows "\<bar>energy_ratio a b - (1 / 2 + 5 / 1000 * (real (unat a) - real (unat b)))\<bar> \<le> 1 / 2 ^ 50"
proof -
  define x where "x = d_mul (fl (5 / 1000)) (double_of_u32 a)"
  define y where "y = d_mul (fl (5 / 1000)) (double_of_u32 b)"
  define u :: real where "u = 1 / 2 ^ 53"
  have u2: "2 / 2 ^ 53 = 2 * u" and u8: "1 / 2 ^ 50 = 8 * u" by (simp_all add: u_def)
  have x: "0 \<le> x" "x \<le> 1 / 2" "\<bar>x - 5 / 1000 * real (unat a)\<bar> \<le> 2 * u"
    using busy_term_bounds[OF assms(1)] unfolding u2 by (simp_all add: x_def)
  have y: "0 \<le> y" "y \<le> 1 / 2" "\<bar>y - 5 / 1000 * real (unat b)\<bar> \<le> 2 * u"
    using busy_term_bounds[OF assms(2)] unfolding u2 by (simp_all add: y_def)
  have "\<bar>x - y\<bar> \<le> 1" using x y by linarith
  then have "\<bar>x - y\<bar> / 2 ^ 53 \<le> u" unfolding u_def by (simp add: divide_right_mono)
  then have t: "\<bar>d_sub x y - (x - y)\<bar> \<le> u"
    unfolding d_sub_def using fl_rel_err[of "x - y"] by linarith
  have "fl (- (1 / 2)) \<le> fl (x - y)" by (rule fl_mono) (use x y in linarith)
  then have lo: "- (1 / 2) \<le> d_sub x y" unfolding d_sub_def fl_half .
  have "fl (x - y) \<le> fl (1 / 2)" by (rule fl_mono) (use x y in linarith)
  then have hi: "d_sub x y \<le> 1 / 2" unfolding d_sub_def fl_half .
  have "\<bar>d_sub x y + 1 / 2\<bar> \<le> 1" using lo hi by linarith
  then have "\<bar>d_sub x y + 1 / 2\<bar> / 2 ^ 53 \<le> u" unfolding u_def by (simp add: divide_right_mono)
  then have r: "\<bar>fl (d_sub x y + 1 / 2) - (d_sub x y + 1 / 2)\<bar> \<le> u"
    using fl_rel_err[of "d_sub x y + 1 / 2"] by linarith
  have lin: "5 / 1000 * (real (unat a) - real (unat b))
             = 5 / 1000 * real (unat a) - 5 / 1000 * real (unat b)"
    by (simp only: right_diff_distrib)
  show ?thesis
    unfolding energy_ratio_def x_def[symmetric] y_def[symmetric] d_add_def u8 lin
    using x(3) y(3) t r by linarith
qed

lemma energy_ratio_strict:
  assumes "unat a \<le> 100" "unat b \<le> 100" "unat a' \<le> 100" "unat b' \<le> 100"
    and "int (unat a) - int (unat b) < int (unat a') - int (unat b')"
  shows "energy_ratio a b < energy_ratio a' b'"
proof -
  have "int (unat a) - int (unat b) + 1 \<le> int (unat a') - int (unat b')" using assms(5) by simp
  then have "real_of_int (int (unat a) - int (unat b) + 1)
             \<le> real_of_int (int (unat a') - int (unat b'))" by (rule of_int_le_iff[THEN iffD2])
  then have d: "real (unat a) - real (unat b) + 1 \<le> real (unat a') - real (unat b')"
    by (simp only: of_int_diff of_int_add of_int_of_nat_eq of_int_1)
  have s: "(1 :: real) / 2 ^ 50 < 1 / 1000" by simp
  have lin: "\<And>p q :: real. 5 / 1000 * (p - q) = 5 / 1000 * p - 5 / 1000 * q"
    by (simp only: right_diff_distrib)
  show ?thesis
    using energy_ratio_approx[OF assms(1,2)] energy_ratio_approx[OF assms(3,4)] d s
    unfolding lin by linarith
qed

text \<open>
  Claim C5, as the code has it, for utilizations of at most 100, the range of a percentage.
  The ratio is \<open>0.005 * busy_A - 0.005 * busy_B + 0.5\<close> evaluated in binary64: it lies in
  [0, 1], differs from \<open>0.5 + 0.005 * (busy_A - busy_B)\<close> by at most \<open>2 ^ - 50\<close>, is
  strictly larger for a strictly larger difference of the utilizations, and does not
  decrease when \<open>busy_A\<close> grows or \<open>busy_B\<close> shrinks.
\<close>

theorem energy_ratio_properties:
  assumes "unat a \<le> 100" "unat b \<le> 100" "unat a' \<le> 100" "unat b' \<le> 100"
  shows "0 \<le> energy_ratio a b \<and> energy_ratio a b \<le> 1
       \<and> \<bar>energy_ratio a b - (1 / 2 + 5 / 1000 * (real (unat a) - real (unat b)))\<bar> \<le> 1 / 2 ^ 50
       \<and> (int (unat a) - int (unat b) < int (unat a') - int (unat b')
            \<longrightarrow> energy_ratio a b < energy_ratio a' b')
       \<and> (unat a \<le> unat a' \<and> unat b' \<le> unat b \<longrightarrow> energy_ratio a b \<le> energy_ratio a' b')"
  using energy_ratio_range[OF assms(1,2)] energy_ratio_approx[OF assms(1,2)]
    energy_ratio_strict[OF assms] energy_ratio_mono[of a a' b' b]
  by blast

text \<open>
  An instance: utilizations 60 and 40 give the binary64 number nearest to 0.6.
\<close>

theorem energy_ratio_properties_witness:
  "energy_ratio 60 40 = 5404319552844595 / 2 ^ 53
   \<and> \<bar>energy_ratio 60 40 - 6 / 10\<bar> \<le> 1 / 2 ^ 50
   \<and> energy_ratio 60 40 < energy_ratio 61 40"
  using energy_ratio_properties[of 60 40 61 40]
  by (simp add: energy_ratio_def d_add_def d_sub_def d_mul_def double_of_u32_def
      fl_def flp_def ilog2_def rne_def bit_length.simps Let_def)

text \<open>
  Claim C5 as stated has the ratio equal to \<open>0.5 + 0.005 * (busy_A - busy_B)\<close> and
  monotonic in the difference of the utilizations. The three operations are rounded to
  binary64 one by one, and the result depends on more than the difference: the pairs (1, 0)
  and (58, 57) have the same difference, the ratio of the first is the binary64 number
  nearest to 0.505, and the ratio of the second is the binary64 number just below it.
\<close>

theorem energy_ratio_not_function_of_difference:
  "energy_ratio 1 0 = 4548635623644201 / 2 ^ 53
   \<and> energy_ratio 58 57 = 4548635623644200 / 2 ^ 53
   \<and> int (unat (1 :: u32)) - int (unat (0 :: u32)) = int (unat (58 :: u32)) - int (unat (57 :: u32))
   \<and> energy_ratio 58 57 < energy_ratio 1 0
   \<and> energy_ratio 58 57 \<noteq> 1 / 2 + 5 / 1000 * (real (unat (58 :: u32)) - real (unat (57 :: u32)))"
  by (simp add: energy_ratio_def d_add_def d_sub_def d_mul_def double_of_u32_def
      fl_def flp_def ilog2_def rne_def bit_length.simps Let_def)

text \<open>
  The comment in \<open>_amd_device_fetch_energy_mi250\<close> gives the ratio as a value between 0
  and 1. The utilization is a \<open>uint32_t\<close> that the library fills in, and nothing bounds
  the ratio when it exceeds 100: at 200 against 0 the ratio is 1.5.
\<close>

lemma energy_ratio_above_one: "energy_ratio 200 0 = 3 / 2"
  by (simp add: energy_ratio_def d_add_def d_sub_def d_mul_def double_of_u32_def
      fl_def flp_def ilog2_def rne_def bit_length.simps Let_def)

section \<open>MI250: the split of the energy\<close>

lemma real_of_nat_less_2p:
  "n < 2 ^ k \<Longrightarrow> real n < 2 ^ k"
  by (rule of_nat_less_numeral_power_cancel_iff[THEN iffD2])

text \<open>
  One share: the idle floor plus a part \<open>x\<close> of the energy above idle, added in binary64
  and truncated. With both below \<open>2 ^ 48\<close> the result is at least the idle floor and lies
  within one Joule below and one sixteenth above the exact sum.
\<close>

lemma share_bounds:
  fixes idle :: u64
  assumes i: "unat idle < 2 ^ 48" and x: "0 \<le> x" "x < 2 ^ 48"
  shows "\<exists>s. u64_of_double (d_add (double_of_u64 idle) x) = Inr s
           \<and> unat idle \<le> unat s
           \<and> real (unat idle) + x - 1 < real (unat s)
           \<and> real (unat s) \<le> real (unat idle) + x + 1 / 16"
proof -
  define I where "I = real (unat idle)"
  define z where "z = I + x"
  define f where "f = fl z"
  have I0: "0 \<le> I" unfolding I_def by (rule of_nat_0_le_iff)
  have I48: "I < 2 ^ 48" unfolding I_def by (rule real_of_nat_less_2p[OF i])
  have "unat idle \<le> 2 ^ 53" using i by simp
  then have dI: "double_of_u64 idle = I" unfolding I_def by (rule double_of_u64_exact)
  have z0: "0 \<le> z" and z49: "z < 2 ^ 49" using I0 I48 x by (simp_all add: z_def)
  have "\<bar>z\<bar> / 2 ^ 53 \<le> 2 ^ 49 / 2 ^ 53" using z0 z49 by (simp add: divide_right_mono)
  then have err: "\<bar>f - z\<bar> \<le> 1 / 16" unfolding f_def using fl_rel_err[of z] by simp
  have "fl I \<le> fl z" by (rule fl_mono) (use x in \<open>simp add: z_def\<close>)
  moreover have "fl I = I" unfolding I_def by (rule fl_of_nat_exact) (use i in simp)
  ultimately have fI: "I \<le> f" by (simp add: f_def)
  have f0: "0 \<le> f" using fI I0 by linarith
  have "(2::real) ^ 49 + 1 / 16 < 2 ^ 64" by simp
  then have f64: "f < 2 ^ 64" using err z49 by linarith
  define s :: u64 where "s = word_of_nat (nat \<lfloor>f\<rfloor>)"
  have conv: "u64_of_double (d_add (double_of_u64 idle) x) = Inr s"
    unfolding dI d_add_def z_def[symmetric] f_def[symmetric] s_def
    by (rule u64_of_double_floor[OF f0 f64])
  have "\<lfloor>f\<rfloor> < 2 ^ 64" using f64 by (simp add: floor_less_iff)
  then have "nat \<lfloor>f\<rfloor> < 2 ^ 64" using f0 by (simp add: nat_less_iff)
  then have us: "unat s = nat \<lfloor>f\<rfloor>" by (simp add: s_def unat_of_nat)
  have fl0: "0 \<le> \<lfloor>f\<rfloor>" using f0 by simp
  have rs: "real (unat s) = of_int \<lfloor>f\<rfloor>" unfolding us using fl0 by simp
  have "real_of_int (int (unat idle)) \<le> f" using fI unfolding I_def by (simp only: of_int_of_nat_eq)
  then have "int (unat idle) \<le> \<lfloor>f\<rfloor>" by (rule le_floor_iff[THEN iffD2])
  then have "nat (int (unat idle)) \<le> nat \<lfloor>f\<rfloor>" by (rule nat_mono)
  then have a: "unat idle \<le> unat s" unfolding us by (simp only: nat_int)
  have zf: "\<lfloor>z\<rfloor> \<le> \<lfloor>f\<rfloor>"
  proof -
    have "0 \<le> \<lfloor>z\<rfloor>" using z0 by simp
    moreover have "\<lfloor>z\<rfloor> < 2 ^ 49" using z49 by (simp add: floor_less_iff)
    ultimately have "\<bar>\<lfloor>z\<rfloor>\<bar> \<le> 2 ^ 53" by simp
    then have "fl (of_int \<lfloor>z\<rfloor> * 2 powi 0) = of_int \<lfloor>z\<rfloor> * 2 powi 0" by (rule fl_exact)
    then have "fl (of_int \<lfloor>z\<rfloor>) = of_int \<lfloor>z\<rfloor>" by simp
    moreover have "fl (of_int \<lfloor>z\<rfloor>) \<le> fl z" by (rule fl_mono) simp
    ultimately have "of_int \<lfloor>z\<rfloor> \<le> f" by (simp add: f_def)
    then show ?thesis by (simp add: le_floor_iff)
  qed
  have "z - 1 < of_int \<lfloor>z\<rfloor>" by linarith
  also have "\<dots> \<le> real_of_int \<lfloor>f\<rfloor>" using zf by simp
  finally have b: "I + x - 1 < real (unat s)" unfolding rs z_def .
  have "real_of_int \<lfloor>f\<rfloor> \<le> f" by simp
  then have c: "real (unat s) \<le> I + x + 1 / 16" unfolding rs z_def[symmetric] using err by linarith
  show ?thesis using conv a b c unfolding I_def by blast
qed

text \<open>A part \<open>r * M\<close> of a whole number of Joules below \<open>2 ^ 48\<close>, for a weight in [0, 1].\<close>

lemma part_bounds:
  fixes m :: u64
  assumes r: "0 \<le> r" "r \<le> 1" and m: "unat m < 2 ^ 48"
  shows "0 \<le> d_mul r (double_of_u64 m)"
    and "d_mul r (double_of_u64 m) \<le> real (unat m)"
    and "\<bar>d_mul r (double_of_u64 m) - r * real (unat m)\<bar> \<le> 1 / 32"
proof -
  define M where "M = real (unat m)"
  have M0: "0 \<le> M" unfolding M_def by (rule of_nat_0_le_iff)
  have M48: "M < 2 ^ 48" unfolding M_def by (rule real_of_nat_less_2p[OF m])
  have "unat m \<le> 2 ^ 53" using m by simp
  then have dM: "double_of_u64 m = M" unfolding M_def by (rule double_of_u64_exact)
  have flM: "fl M = M" unfolding M_def by (rule fl_of_nat_exact) (use m in simp)
  have rM0: "0 \<le> r * M" using r M0 by simp
  have rM1: "r * M \<le> M" using r M0 by (simp add: mult_left_le_one_le)
  show "0 \<le> d_mul r (double_of_u64 m)" unfolding d_mul_def dM by (rule fl_nonneg[OF rM0])
  have "fl (r * M) \<le> fl M" by (rule fl_mono[OF rM1])
  then show "d_mul r (double_of_u64 m) \<le> real (unat m)"
    unfolding d_mul_def dM flM M_def[symmetric] .
  have "\<bar>r * M\<bar> / 2 ^ 53 \<le> 2 ^ 48 / 2 ^ 53"
    using rM0 rM1 M48 by (intro divide_right_mono) simp_all
  then have "\<bar>fl (r * M) - r * M\<bar> \<le> 1 / 32" using fl_rel_err[of "r * M"] by simp
  then show "\<bar>d_mul r (double_of_u64 m) - r * real (unat m)\<bar> \<le> 1 / 32"
    unfolding d_mul_def dM M_def[symmetric] .
qed

lemma complement_bounds:
  assumes "0 \<le> r" "r \<le> 1"
  shows "0 \<le> d_sub 1 r" and "d_sub 1 r \<le> 1" and "\<bar>d_sub 1 r - (1 - r)\<bar> \<le> 1 / 2 ^ 53"
proof -
  have "fl 0 \<le> fl (1 - r)" by (rule fl_mono) (use assms in simp)
  then show "0 \<le> d_sub 1 r" by (simp add: d_sub_def)
  have "fl (1 - r) \<le> fl 1" by (rule fl_mono) (use assms in simp)
  then show "d_sub 1 r \<le> 1" unfolding d_sub_def fl_half .
  have "\<bar>1 - r\<bar> / 2 ^ 53 \<le> 1 / 2 ^ 53" using assms by (intro divide_right_mono) simp_all
  then show "\<bar>d_sub 1 r - (1 - r)\<bar> \<le> 1 / 2 ^ 53"
    unfolding d_sub_def using fl_rel_err[of "1 - r"] by linarith
qed

lemma split_bounds:
  fixes idle min_idle :: u64
  assumes r: "0 \<le> r" "r \<le> 1" and i: "unat idle < 2 ^ 48" and m: "unat min_idle < 2 ^ 48"
  shows "\<exists>share pshare.
           gcd_share idle r min_idle = Inr share \<and> peer_share idle r min_idle = Inr pshare
           \<and> unat idle \<le> unat share \<and> unat idle \<le> unat pshare
           \<and> 2 * unat idle + unat min_idle \<le> unat share + unat pshare + 2
           \<and> unat share + unat pshare \<le> 2 * unat idle + unat min_idle"
proof -
  define I where "I = real (unat idle)"
  define M where "M = real (unat min_idle)"
  define r' where "r' = d_sub 1 r"
  define x where "x = d_mul r (double_of_u64 min_idle)"
  define y where "y = d_mul r' (double_of_u64 min_idle)"
  have M0: "0 \<le> M" unfolding M_def by (rule of_nat_0_le_iff)
  have M48: "M < 2 ^ 48" unfolding M_def by (rule real_of_nat_less_2p[OF m])
  have r': "0 \<le> r'" "r' \<le> 1" "\<bar>r' - (1 - r)\<bar> \<le> 1 / 2 ^ 53"
    using complement_bounds[OF r] by (simp_all add: r'_def)
  have x: "0 \<le> x" "x \<le> M" "\<bar>x - r * M\<bar> \<le> 1 / 32"
    using part_bounds[OF r m] by (simp_all add: x_def M_def)
  have y: "0 \<le> y" "y \<le> M" "\<bar>y - r' * M\<bar> \<le> 1 / 32"
    using part_bounds[OF r'(1,2) m] by (simp_all add: y_def M_def)
  have "\<bar>r' - (1 - r)\<bar> * M \<le> (1 / 2 ^ 53) * 2 ^ 48"
    using r'(3) M0 M48 by (intro mult_mono) simp_all
  then have "\<bar>(r' - (1 - r)) * M\<bar> \<le> 1 / 32" using M0 by (simp add: abs_mult)
  moreover have "(r' - (1 - r)) * M = r * M + r' * M - M" by (simp add: algebra_simps)
  ultimately have rr: "\<bar>r * M + r' * M - M\<bar> \<le> 1 / 32" by simp
  have xy: "\<bar>x + y - M\<bar> \<le> 3 / 32" using x(3) y(3) rr by linarith
  have x48: "x < 2 ^ 48" and y48: "y < 2 ^ 48" using x(2) y(2) M48 by linarith+
  obtain share where sh: "u64_of_double (d_add (double_of_u64 idle) x) = Inr share"
    "unat idle \<le> unat share" "I + x - 1 < real (unat share)" "real (unat share) \<le> I + x + 1 / 16"
    using share_bounds[OF i x(1) x48] unfolding I_def by blast
  obtain pshare where ps: "u64_of_double (d_add (double_of_u64 idle) y) = Inr pshare"
    "unat idle \<le> unat pshare" "I + y - 1 < real (unat pshare)"
    "real (unat pshare) \<le> I + y + 1 / 16"
    using share_bounds[OF i y(1) y48] unfolding I_def by blast
  have up: "real (unat share) + real (unat pshare) < 2 * I + M + 1"
    using sh(4) ps(4) xy by linarith
  have lo: "2 * I + M - 3 < real (unat share) + real (unat pshare)"
    using sh(3) ps(3) xy by linarith
  have "real (unat share + unat pshare) < real (2 * unat idle + unat min_idle + 1)"
    using up by (simp add: I_def M_def)
  then have u: "unat share + unat pshare < 2 * unat idle + unat min_idle + 1"
    by (rule of_nat_less_iff[THEN iffD1])
  have "real (2 * unat idle + unat min_idle) < real (unat share + unat pshare + 3)"
    using lo by (simp add: I_def M_def)
  then have l: "2 * unat idle + unat min_idle < unat share + unat pshare + 3"
    by (rule of_nat_less_iff[THEN iffD1])
  have "gcd_share idle r min_idle = Inr share"
    unfolding gcd_share_def x_def[symmetric] by (rule sh(1))
  moreover have "peer_share idle r min_idle = Inr pshare"
    unfolding peer_share_def r'_def[symmetric] y_def[symmetric] by (rule ps(1))
  ultimately show ?thesis using sh(2) ps(2) u l by auto
qed

text \<open>The timestamps are 64-bit nanoseconds: fewer than \<open>2 ^ 35\<close> seconds can elapse.\<close>

lemma elapsed_s_bound:
  assumes "elapsed_s ts last_timestamp = Inr elapsed"
  shows "unat elapsed \<le> 18446744074"
proof -
  define q where "q = d_div (double_of_u64 (ts - last_timestamp)) (10 ^ 9)"
  have e: "elapsed = word_of_nat (nat \<lfloor>q\<rfloor>)"
    using assms u64_of_scaled_count[of "10 ^ 9" "ts - last_timestamp"]
    by (simp add: elapsed_s_def q_def)
  have "double_of_u64 (ts - last_timestamp) / 10 ^ 9 \<le> 2 ^ 64 / 10 ^ 9"
    using double_of_u64_bounds(2)[of "ts - last_timestamp"] by (simp add: divide_right_mono)
  also have "\<dots> \<le> real 18446744074" by simp
  finally have "fl (double_of_u64 (ts - last_timestamp) / 10 ^ 9) \<le> fl (real 18446744074)"
    by (rule fl_mono)
  moreover have "fl (real 18446744074) = real 18446744074" by (rule fl_of_nat_exact) simp
  ultimately have "q \<le> 18446744074" by (simp add: q_def d_div_def)
  then have "\<lfloor>q\<rfloor> \<le> \<lfloor>18446744074 :: real\<rfloor>" by (rule floor_mono)
  then have "nat \<lfloor>q\<rfloor> \<le> nat \<lfloor>18446744074 :: real\<rfloor>" by (rule nat_mono)
  then have n: "nat \<lfloor>q\<rfloor> \<le> 18446744074" by simp
  then have "nat \<lfloor>q\<rfloor> < 2 ^ 64" by simp
  then have "unat elapsed = nat \<lfloor>q\<rfloor>" unfolding e by (simp add: unat_of_nat)
  then show ?thesis using n by simp
qed

lemma energy_idle_unat:
  assumes "unat elapsed \<le> 18446744074"
  shows "unat (energy_idle elapsed) = 40 * unat elapsed"
proof -
  have "40 * unat elapsed < 2 ^ 64" using assms by simp
  then show ?thesis
    by (simp add: energy_idle_def gcd_idle_power_def unat_word_ariths)
qed

lemma energy_min_idle_le: "unat (energy_min_idle energy idle) \<le> unat energy"
proof (cases "2 * idle < energy")
  case True
  then have "2 * idle \<le> energy" by simp
  then have "unat (energy - 2 * idle) = unat energy - unat (2 * idle)" by (rule unat_sub)
  then show ?thesis using True by (simp add: energy_min_idle_def)
next
  case False
  then show ?thesis by (simp add: energy_min_idle_def)
qed

text \<open>
  What \<open>_amd_device_fetch_energy_mi250\<close> does on a sample that is not the first, for a
  device and a distinct peer, once the combined energy and the elapsed time are known.
\<close>

lemma mi250_result:
  assumes idx: "i < length s" "peer (s ! i) = Some j" "j < length s" "i \<noteq> j"
    and nonfirst: "energy_raw (s ! i) \<noteq> 0" and mono: "energy_raw (s ! i) \<le> counter"
    and energy: "amd_joules res (counter - energy_raw (s ! i)) = Inr energy"
    and elapsed: "elapsed_s ts (timestamp (s ! i)) = Inr elapsed"
    and sh: "gcd_share (energy_idle elapsed) (energy_ratio a b)
               (energy_min_idle energy (energy_idle elapsed)) = Inr share"
    and ps: "peer_share (energy_idle elapsed) (energy_ratio a b)
               (energy_min_idle energy (energy_idle elapsed)) = Inr pshare"
  shows "amd_device_fetch_energy_mi250 (Some a) (Some b) (Some (counter, res, ts)) i s
         = Inr (s[i := (s ! i)\<lparr>busy_percent := a, energy_raw := counter, timestamp := ts,
                               energy_resolution := res, energy_interval := share,
                               energy_acc := energy_acc (s ! i) + share\<rparr>,
                  j := (s ! j)\<lparr>busy_percent := b, energy_interval := pshare,
                               energy_acc := energy_acc (s ! j) + pshare\<rparr>])"
proof -
  have ji: "j \<noteq> i" using idx(4) by simp
  show ?thesis
    using idx(1-3) ji idx(4) nonfirst mono
    by (simp add: amd_device_fetch_energy_mi250_def amd_device_fetch_activity_def Let_def
        energy elapsed sh ps list_update_swap[of j i])
qed

text \<open>
  The intermediate values of the code are those of the specification: the energy above idle
  is \<open>max (combined - 2 * energy_idle) 0\<close>, and below \<open>2 ^ 53\<close> nanoseconds the
  elapsed time is the whole number of seconds between the two timestamps.
\<close>

lemma spec_energy_above_idle_nat: "spec_energy_above_idle combined idle = combined - 2 * idle"
  unfolding spec_energy_above_idle_def by linarith

lemma energy_min_idle_unat:
  fixes energy idle :: u64
  assumes "unat idle < 2 ^ 63"
  shows "unat (energy_min_idle energy idle) = spec_energy_above_idle (unat energy) (unat idle)"
proof -
  have d: "unat (2 * idle) = 2 * unat idle"
    using assms by (simp add: unat_word_ariths)
  show ?thesis
  proof (cases "2 * idle < energy")
    case True
    then have lt: "2 * unat idle < unat energy" unfolding word_less_nat_alt d .
    from True have "2 * idle \<le> energy" by simp
    then have "unat (energy - 2 * idle) = unat energy - unat (2 * idle)" by (rule unat_sub)
    then show ?thesis using True lt
      by (simp add: energy_min_idle_def spec_energy_above_idle_nat d)
  next
    case False
    then have "\<not> 2 * unat idle < unat energy" unfolding word_less_nat_alt d .
    then show ?thesis using False
      by (simp add: energy_min_idle_def spec_energy_above_idle_nat)
  qed
qed

lemma floor_fl_div_billion:
  assumes "n < 2 ^ 53"
  shows "\<lfloor>fl (real n / 10 ^ 9)\<rfloor> = int (n div 10 ^ 9)"
proof -
  define q where "q = n div 10 ^ 9"
  define r where "r = n mod 10 ^ 9"
  define x where "x = real n / 10 ^ 9"
  have n: "n = q * 10 ^ 9 + r" by (simp add: q_def r_def)
  have r: "r \<le> 999999999" using mod_less_divisor[of "10 ^ 9" n] by (simp add: r_def)
  have x: "x = real q + real r / 10 ^ 9" by (simp add: x_def n field_simps)
  have x0: "0 \<le> x" by (simp add: x_def)
  have "real r \<le> 999999999" using r by simp
  then have xle: "x \<le> real q + 1 - 1 / 10 ^ 9" by (simp add: x field_simps)
  have "real n < 2 ^ 53" by (rule of_nat_less_numeral_power_cancel_iff[THEN iffD2, OF assms])
  then have "x / 2 ^ 53 < 1 / 10 ^ 9" by (simp add: x_def field_simps)
  moreover have "\<bar>fl x - x\<bar> \<le> x / 2 ^ 53" using fl_rel_err[of x] x0 by simp
  ultimately have up: "fl x < real q + 1" using xle by linarith
  have "q \<le> n" by (simp add: q_def)
  then have "q \<le> 2 ^ 53" using assms by linarith
  then have "fl (real q) = real q" by (rule fl_of_nat_exact)
  moreover have "real q \<le> x" by (simp add: x)
  ultimately have lo: "real q \<le> fl x" using fl_mono[of "real q" x] by simp
  have "\<lfloor>fl x\<rfloor> = int q" using lo up by (simp add: floor_eq_iff)
  then show ?thesis by (simp add: x_def q_def)
qed

lemma elapsed_s_exact:
  assumes e: "elapsed_s ts last_timestamp = Inr elapsed"
    and lt: "unat (ts - last_timestamp) < 2 ^ 53"
  shows "unat elapsed = unat (ts - last_timestamp) div 10 ^ 9"
proof -
  have "unat (ts - last_timestamp) \<le> 2 ^ 53" using lt by simp
  then have d: "double_of_u64 (ts - last_timestamp) = real (unat (ts - last_timestamp))"
    by (rule double_of_u64_exact)
  have "elapsed_s ts last_timestamp
          = Inr (word_of_nat (nat \<lfloor>d_div (double_of_u64 (ts - last_timestamp)) (10 ^ 9)\<rfloor>))"
    unfolding elapsed_s_def by (rule u64_of_scaled_count) simp
  then have "elapsed = word_of_nat (unat (ts - last_timestamp) div 10 ^ 9)"
    using e unfolding d d_div_def floor_fl_div_billion[OF lt] by simp
  moreover have "unat (ts - last_timestamp) div 10 ^ 9 < 2 ^ 64"
    using lt by (simp add: order.strict_trans1[OF div_le_dividend])
  ultimately show ?thesis by (simp add: unat_of_nat)
qed

text \<open>
  Claim C4, as the code has it. On a sample that is not the first, for a device of a pair
  and its distinct peer, utilizations of at most 100 and a combined energy below \<open>2 ^ 48\<close>
  Joules, the call succeeds. The idle energy of the code is that of the specification,
  \<open>gcd_idle_power\<close> times the elapsed seconds, and the energy above idle is
  \<open>max (combined - 2 * energy_idle) 0\<close>. The interval energy of each of the two units is
  at least the idle energy, and the sum of the two lies between
  \<open>2 * energy_idle + energy_above_idle - 2\<close> and \<open>2 * energy_idle + energy_above_idle\<close>:
  each share is a \<open>double\<close> truncated to whole Joules. Hence, when the combined energy is
  at least twice the idle energy, the sum lies between the combined energy minus 2 and the
  combined energy; when it is less, each unit receives the idle energy exactly and the sum
  exceeds the combined energy. Both accumulators grow by the share of their unit in the same
  call.
\<close>

theorem mi250_split_sum:
  assumes idx: "i < length s" "peer (s ! i) = Some j" "j < length s" "i \<noteq> j"
    and nonfirst: "energy_raw (s ! i) \<noteq> 0" and mono: "energy_raw (s ! i) \<le> counter"
    and busy: "unat a \<le> 100" "unat b \<le> 100"
    and energy: "amd_joules res (counter - energy_raw (s ! i)) = Inr energy"
      "unat energy < 2 ^ 48"
    and elapsed: "elapsed_s ts (timestamp (s ! i)) = Inr elapsed"
  shows "\<exists>s'. amd_device_fetch_energy_mi250 (Some a) (Some b) (Some (counter, res, ts)) i s = Inr s'
           \<and> (let combined = unat energy;
                    idle = spec_energy_idle (unat elapsed);
                    above = spec_energy_above_idle combined idle;
                    share = unat (energy_interval (s' ! i));
                    pshare = unat (energy_interval (s' ! j))
                in unat (energy_idle elapsed) = idle
                   \<and> unat (energy_min_idle energy (energy_idle elapsed)) = above
                   \<and> idle \<le> share \<and> idle \<le> pshare
                   \<and> 2 * idle + above \<le> share + pshare + 2
                   \<and> share + pshare \<le> 2 * idle + above
                   \<and> (2 * idle \<le> combined
                        \<longrightarrow> combined \<le> share + pshare + 2 \<and> share + pshare \<le> combined)
                   \<and> (combined < 2 * idle \<longrightarrow> share = idle \<and> pshare = idle)
                   \<and> (unat (ts - timestamp (s ! i)) < 2 ^ 53
                        \<longrightarrow> unat elapsed = unat (ts - timestamp (s ! i)) div 10 ^ 9)
                   \<and> energy_acc (s' ! i) = energy_acc (s ! i) + energy_interval (s' ! i)
                   \<and> energy_acc (s' ! j) = energy_acc (s ! j) + energy_interval (s' ! j))"
proof -
  define I where "I = spec_energy_idle (unat elapsed)"
  define M where "M = spec_energy_above_idle (unat energy) I"
  have e: "unat elapsed \<le> 18446744074" by (rule elapsed_s_bound[OF elapsed])
  have ui: "unat (energy_idle elapsed) = I"
    unfolding I_def spec_energy_idle_def by (rule energy_idle_unat[OF e])
  have i48: "unat (energy_idle elapsed) < 2 ^ 48"
    unfolding ui I_def spec_energy_idle_def using e by simp
  then have "unat (energy_idle elapsed) < 2 ^ 63" by simp
  then have um: "unat (energy_min_idle energy (energy_idle elapsed)) = M"
    unfolding M_def ui[symmetric] by (rule energy_min_idle_unat)
  have m48: "unat (energy_min_idle energy (energy_idle elapsed)) < 2 ^ 48"
    using energy_min_idle_le[of energy "energy_idle elapsed"] energy(2) by linarith
  note r = energy_ratio_range[OF busy]
  obtain share pshare where
    sh: "gcd_share (energy_idle elapsed) (energy_ratio a b)
               (energy_min_idle energy (energy_idle elapsed)) = Inr share"
    and ps: "peer_share (energy_idle elapsed) (energy_ratio a b)
               (energy_min_idle energy (energy_idle elapsed)) = Inr pshare"
    and b: "I \<le> unat share" "I \<le> unat pshare"
      "2 * I + M \<le> unat share + unat pshare + 2"
      "unat share + unat pshare \<le> 2 * I + M"
    using split_bounds[OF r i48 m48] unfolding ui um by blast
  have hi: "unat energy \<le> unat share + unat pshare + 2 \<and> unat share + unat pshare \<le> unat energy"
    if "2 * I \<le> unat energy"
  proof -
    have "2 * I + M = unat energy" using that by (simp add: M_def spec_energy_above_idle_nat)
    then show ?thesis using b(3,4) by simp
  qed
  have lo: "unat share = I \<and> unat pshare = I" if "unat energy < 2 * I"
  proof -
    have "M = 0" using that by (simp add: M_def spec_energy_above_idle_nat)
    then show ?thesis using b by simp
  qed
  have el: "unat elapsed = unat (ts - timestamp (s ! i)) div 10 ^ 9"
    if "unat (ts - timestamp (s ! i)) < 2 ^ 53"
    using elapsed that by (rule elapsed_s_exact)
  note res = mi250_result[OF idx nonfirst mono energy(1) elapsed sh ps]
  have ji: "j \<noteq> i" using idx(4) by simp
  show ?thesis
    unfolding res Let_def I_def[symmetric] M_def[symmetric]
    using idx(1,3) ji idx(4) b ui um hi lo el by simp
qed

text \<open>
  Claim C4 as stated has the two interval energies sum to exactly
  \<open>2 * energy_idle + energy_above_idle\<close>, the combined energy measured at the shared
  counter. With a combined energy of 1001 J over 10 s and
  both utilizations at 50 the idle energy is 400 J, the energy above idle 201 J and the ratio
  one half: each unit receives \<open>400 + 100.5\<close> truncated, 500 J, and the sum is 1000.
\<close>

theorem mi250_split_loses_a_joule:
  "amd_device_fetch_energy_mi250 (Some 50) (Some 50) (Some (1002, 10 ^ 6, 10 ^ 10)) 0
     [zero_unit\<lparr>model := MI250, peer := Some 1, energy_raw := 1\<rparr>,
      zero_unit\<lparr>model := MI250, unit_id := 1\<rparr>]
   = Inr [zero_unit\<lparr>model := MI250, peer := Some 1, energy_raw := 1002, timestamp := 10 ^ 10,
                    energy_resolution := 10 ^ 6, busy_percent := 50,
                    energy_interval := 500, energy_acc := 500\<rparr>,
          zero_unit\<lparr>model := MI250, unit_id := 1, busy_percent := 50,
                    energy_interval := 500, energy_acc := 500\<rparr>]
   \<and> amd_joules (10 ^ 6) (1002 - 1) = Inr 1001
   \<and> elapsed_s (10 ^ 10) 0 = Inr 10
   \<and> energy_idle 10 = 400
   \<and> energy_min_idle 1001 400 = 201
   \<and> spec_energy_idle 10 = 400
   \<and> spec_energy_above_idle 1001 400 = 201
   \<and> (500 :: nat) + 500 \<noteq> 2 * 400 + 201
   \<and> (500 :: nat) + 500 \<noteq> 1001"
  by (simp add: amd_device_fetch_energy_mi250_def amd_device_fetch_activity_def amd_joules_def
      elapsed_s_def energy_idle_def gcd_idle_power_def energy_min_idle_def energy_ratio_def
      gcd_share_def peer_share_def u64_of_double_def d_add_def d_sub_def d_mul_def d_div_def
      double_of_u64_def double_of_u32_def zero_unit_def
      spec_energy_idle_def spec_energy_above_idle_def
      fl_def flp_def ilog2_def rne_def bit_length.simps Let_def)

text \<open>
  An instance: 1000 J over 10 s with utilizations 60 and 40 gives 520 J and 480 J.
\<close>

theorem mi250_split_sum_witness:
  "amd_device_fetch_energy_mi250 (Some 60) (Some 40) (Some (1001, 10 ^ 6, 10 ^ 10)) 0
     [zero_unit\<lparr>model := MI250, peer := Some 1, energy_raw := 1\<rparr>,
      zero_unit\<lparr>model := MI250, unit_id := 1\<rparr>]
   = Inr [zero_unit\<lparr>model := MI250, peer := Some 1, energy_raw := 1001, timestamp := 10 ^ 10,
                    energy_resolution := 10 ^ 6, busy_percent := 60,
                    energy_interval := 520, energy_acc := 520\<rparr>,
          zero_unit\<lparr>model := MI250, unit_id := 1, busy_percent := 40,
                    energy_interval := 480, energy_acc := 480\<rparr>]"
  using mi250_split_sum[of 0
     "[zero_unit\<lparr>model := MI250, peer := Some 1, energy_raw := 1\<rparr>,
       zero_unit\<lparr>model := MI250, unit_id := 1\<rparr>]" 1 1001 60 40 "10 ^ 6" 1000 "10 ^ 10" 10]
  by (simp add: amd_device_fetch_energy_mi250_def amd_device_fetch_activity_def amd_joules_def
      elapsed_s_def energy_idle_def gcd_idle_power_def energy_min_idle_def energy_ratio_def
      gcd_share_def peer_share_def u64_of_double_def d_add_def d_sub_def d_mul_def d_div_def
      double_of_u64_def double_of_u32_def zero_unit_def
      fl_def flp_def ilog2_def rne_def bit_length.simps Let_def)


section \<open>The accumulator\<close>






















end
